theory Spec2Isabelle
  imports Main "HOL-Library.AList"
begin

section \<open>Paths and errors\<close>

text \<open>
  A \<open>pathlib.Path\<close> is modelled by its string; two paths are equal when their strings
  are. Every exception the module raises is a value of \<open>error\<close>; a method that can
  raise returns \<open>error + 'a\<close> with \<open>Inl\<close> for the exception.
\<close>

type_synonym path = string

datatype value_error =
    DuplicateDependency string
  | UnknownFiles path
  | UnpackMismatch nat
  | EmptySeparator

datatype error =
    FileNotFoundError path
  | NotADirectoryError path
  | ValueError value_error
  | KeyError string
  | TypeError
  | SchemaError
  | ConfigParserError

section \<open>The layered path list of \<open>_ConfigABC\<close>\<close>

text \<open>
  \<open>_path_order\<close> is a deque, modelled as the list of its elements from left to right:
  \<open>appendleft\<close> is \<open>#\<close> and \<open>append\<close> is \<open>@ [_]\<close>. The file system enters through the
  predicate \<open>path_exists\<close> (the result of \<open>path.exists()\<close>). A method that mutates the
  deque returns the result paired with the deque afterwards, also when it raises.
\<close>

definition check_path_add :: "(path \<Rightarrow> bool) \<Rightarrow> path list \<Rightarrow> path \<Rightarrow> error + bool" where
  "check_path_add path_exists order p =
     (if p \<in> set order then Inr False
      else if \<not> path_exists p then Inl (FileNotFoundError p)
      else Inr True)"

definition update_first_path ::
  "(path \<Rightarrow> bool) \<Rightarrow> path \<Rightarrow> path list \<Rightarrow> (error + bool) \<times> path list" where
  "update_first_path path_exists p order =
     (case check_path_add path_exists order p of
        Inl e \<Rightarrow> (Inl e, order)
      | Inr added \<Rightarrow>
          if added then (Inr True, p # order) else (Inr False, order))"

definition update_last_path ::
  "(path \<Rightarrow> bool) \<Rightarrow> path \<Rightarrow> path list \<Rightarrow> (error + bool) \<times> path list" where
  "update_last_path path_exists p order =
     (case check_path_add path_exists order p of
        Inl e \<Rightarrow> (Inl e, order)
      | Inr added \<Rightarrow>
          if added then (Inr True, order @ [p]) else (Inr False, order))"

lemma update_first_path_known:
  "p \<in> set po \<Longrightarrow> update_first_path ex p po = (Inr False, po)"
  by (simp add: update_first_path_def check_path_add_def)

lemma update_first_path_missing:
  "p \<notin> set po \<Longrightarrow> \<not> ex p \<Longrightarrow> update_first_path ex p po = (Inl (FileNotFoundError p), po)"
  by (simp add: update_first_path_def check_path_add_def)

lemma update_first_path_new:
  "p \<notin> set po \<Longrightarrow> ex p \<Longrightarrow> update_first_path ex p po = (Inr True, p # po)"
  by (simp add: update_first_path_def check_path_add_def)

lemma update_last_path_known:
  "p \<in> set po \<Longrightarrow> update_last_path ex p po = (Inr False, po)"
  by (simp add: update_last_path_def check_path_add_def)

lemma update_last_path_missing:
  "p \<notin> set po \<Longrightarrow> \<not> ex p \<Longrightarrow> update_last_path ex p po = (Inl (FileNotFoundError p), po)"
  by (simp add: update_last_path_def check_path_add_def)

lemma update_last_path_new:
  "p \<notin> set po \<Longrightarrow> ex p \<Longrightarrow> update_last_path ex p po = (Inr True, po @ [p])"
  by (simp add: update_last_path_def check_path_add_def)

text \<open>
  Claim C7. For every layered path list \<open>po\<close> and path \<open>p\<close>: if \<open>p\<close> is already a
  member, prepending and appending both return False and leave the order as it is,
  whatever the file system says about \<open>p\<close> (the predicate \<open>ex\<close> is arbitrary); if \<open>p\<close>
  is not a member and does not exist, both raise \<open>FileNotFoundError\<close> and the order is
  unchanged; if \<open>p\<close> is not a member and exists, both return True, with \<open>p\<close> added at
  the front, respectively at the back.
\<close>

theorem update_paths_contract:
  "(p \<in> set po \<longrightarrow>
      update_first_path ex p po = (Inr False, po) \<and>
      update_last_path ex p po = (Inr False, po)) \<and>
   (p \<notin> set po \<and> \<not> ex p \<longrightarrow>
      update_first_path ex p po = (Inl (FileNotFoundError p), po) \<and>
      update_last_path ex p po = (Inl (FileNotFoundError p), po)) \<and>
   (p \<notin> set po \<and> ex p \<longrightarrow>
      update_first_path ex p po = (Inr True, p # po) \<and>
      update_last_path ex p po = (Inr True, po @ [p]))"
proof (intro conjI impI)
  assume "p \<in> set po"
  then show "update_first_path ex p po = (Inr False, po)"
    and "update_last_path ex p po = (Inr False, po)"
    by (rule update_first_path_known, rule update_last_path_known)
next
  assume "p \<notin> set po \<and> \<not> ex p"
  then show "update_first_path ex p po = (Inl (FileNotFoundError p), po)"
    and "update_last_path ex p po = (Inl (FileNotFoundError p), po)"
    by (simp_all add: update_first_path_missing update_last_path_missing)
next
  assume "p \<notin> set po \<and> ex p"
  then show "update_first_path ex p po = (Inr True, p # po)"
    and "update_last_path ex p po = (Inr True, po @ [p])"
    by (simp_all add: update_first_path_new update_last_path_new)
qed

theorem update_paths_contract_witness:
  "update_first_path (\<lambda>q. False) ''b'' [''a'', ''b''] = (Inr False, [''a'', ''b'']) \<and>
   update_last_path (\<lambda>q. False) ''b'' [''a'', ''b''] = (Inr False, [''a'', ''b'']) \<and>
   update_first_path (\<lambda>q. False) ''c'' [''a'', ''b''] = (Inl (FileNotFoundError ''c''), [''a'', ''b'']) \<and>
   update_last_path (\<lambda>q. False) ''c'' [''a'', ''b''] = (Inl (FileNotFoundError ''c''), [''a'', ''b'']) \<and>
   update_first_path (\<lambda>q. q = ''c'') ''c'' [''a'', ''b''] = (Inr True, [''c'', ''a'', ''b'']) \<and>
   update_last_path (\<lambda>q. q = ''c'') ''c'' [''a'', ''b''] = (Inr True, [''a'', ''b'', ''c''])"
proof -
  have known: "''b'' \<in> set [''a'', ''b'']" by simp
  have fresh: "''c'' \<notin> set [''a'', ''b'']" by simp
  from known fresh
    update_paths_contract [of "''b''" "[''a'', ''b'']" "\<lambda>q. False"]
    update_paths_contract [of "''c''" "[''a'', ''b'']" "\<lambda>q. False"]
    update_paths_contract [of "''c''" "[''a'', ''b'']" "\<lambda>q. q = ''c''"]
  show ?thesis by simp
qed

section \<open>Text files and the string methods the parsers use\<close>

text \<open>
  The files a config object reads are a partial function from paths to the text that
  \<open>open(encoding=ENCODING).read()\<close> returns; \<open>None\<close> is a path that cannot be opened
  (\<open>FileNotFoundError\<close>). Text is a list of characters with code points below 256.
  Every function that opens files also threads the list of the paths opened so far
  (the read log), oldest first, so that reading and re-reading can be stated.

  \<open>splitlines\<close> is Python's \<open>str.splitlines()\<close>: a line ends at a line feed, vertical
  tab, form feed, carriage return (one boundary together with a following line feed),
  file, group or record separator or next-line character; the boundary is dropped and a
  final boundary opens no empty last line. \<open>str_split sep\<close> is \<open>str.split(sep)\<close> for
  a separator of one character.
\<close>

type_synonym files = "path \<Rightarrow> string option"

definition is_linebreak :: "char \<Rightarrow> bool" where
  "is_linebreak c =
     (c \<in> set [CHR 0x0A, CHR 0x0B, CHR 0x0C, CHR 0x0D, CHR 0x1C, CHR 0x1D, CHR 0x1E, CHR 0x85])"

fun splitlines_from :: "string \<Rightarrow> string \<Rightarrow> string list" where
  "splitlines_from cur [] = (if cur = [] then [] else [rev cur])"
| "splitlines_from cur [c] = (if is_linebreak c then [rev cur] else [rev (c # cur)])"
| "splitlines_from cur (c # d # cs) =
     (if c = CHR 0x0D \<and> d = CHR 0x0A then rev cur # splitlines_from [] cs
      else if is_linebreak c then rev cur # splitlines_from [] (d # cs)
      else splitlines_from (c # cur) (d # cs))"

definition splitlines :: "string \<Rightarrow> string list" where
  "splitlines text = splitlines_from [] text"

fun str_split :: "char \<Rightarrow> string \<Rightarrow> string list" where
  "str_split sep [] = [[]]"
| "str_split sep (c # cs) =
     (if c = sep then [] # str_split sep cs
      else case str_split sep cs of [] \<Rightarrow> [[c]] | p # ps \<Rightarrow> (c # p) # ps)"

lemma str_split_unfold:
  "str_split sep s = takeWhile (\<lambda>c. c \<noteq> sep) s #
     (case dropWhile (\<lambda>c. c \<noteq> sep) s of [] \<Rightarrow> [] | c # r \<Rightarrow> str_split sep r)"
  by (induction s) (auto split: list.splits)

lemma str_split_length: "length (str_split sep s) = Suc (count_list s sep)"
  by (induction s) (auto split: list.splits)

lemma str_split_no_sep: "sep \<notin> set s \<Longrightarrow> str_split sep s = [s]"
  by (induction s) auto

lemma str_split_not_Nil [simp]: "str_split sep s \<noteq> []"
  by (cases s) (auto split: list.splits)

lemma str_split_single: "str_split sep s = [v] \<Longrightarrow> s = v \<and> sep \<notin> set v"
  by (induction s arbitrary: v) (auto split: list.splits if_splits)

lemma str_split_pairD:
  "str_split sep s = [k, v] \<Longrightarrow> s = k @ sep # v \<and> sep \<notin> set k \<and> sep \<notin> set v"
proof (induction s arbitrary: k)
  case Nil
  then show ?case by simp
next
  case (Cons c cs)
  show ?case
  proof (cases "c = sep")
    case True
    with Cons.prems have "k = []" and "str_split sep cs = [v]" by simp_all
    with True str_split_single [of sep cs v] show ?thesis by simp
  next
    case False
    with Cons.prems obtain p where "k = c # p" and "str_split sep cs = [p, v]"
      by (auto split: list.splits)
    with False Cons.IH [of p] show ?thesis by simp
  qed
qed

lemma str_split_append:
  "sep \<notin> set k \<Longrightarrow> str_split sep (k @ sep # r) = k # str_split sep r"
  by (induction k) auto

lemma str_split_pair:
  "str_split sep s = [k, v] \<longleftrightarrow> s = k @ sep # v \<and> sep \<notin> set k \<and> sep \<notin> set v"
  using str_split_pairD [of sep s k v] str_split_append [of sep k v] str_split_no_sep [of sep v]
  by auto

lemma is_linebreak_CR: "is_linebreak (CHR 0x0D)"
  by (simp add: is_linebreak_def)

lemma splitlines_from_no_linebreak:
  "list_all (\<lambda>c. \<not> is_linebreak c) cur \<Longrightarrow>
   list_all (list_all (\<lambda>c. \<not> is_linebreak c)) (splitlines_from cur t)"
proof (induction cur t rule: splitlines_from.induct)
  case (1 cur)
  then show ?case by simp
next
  case (2 cur c)
  then show ?case by simp
next
  case (3 cur c d cs)
  then show ?case by (auto simp: is_linebreak_CR)
qed

lemma splitlines_no_linebreak:
  "l \<in> set (splitlines t) \<Longrightarrow> c \<in> set l \<Longrightarrow> \<not> is_linebreak c"
  using splitlines_from_no_linebreak [of "[]" t]
  by (auto simp: splitlines_def list_all_iff)

section \<open>Config objects and the two \<open>_config_data\<close> properties\<close>

text \<open>
  A config object with the cache mixin is its \<open>_path_order\<close> and its \<open>_read_cache\<close>
  (\<open>None\<close> as in Python). \<open>_ConfigABC._config_data\<close> calls the parser and raises
  \<open>TypeError\<close> when it returns Python's \<open>None\<close>; the parsers of this module return a
  \<open>ConfigParser\<close>, a generator or a \<open>dict\<close>, so in the model a parser's result type has no
  \<open>None\<close> and the property hands the parser's outcome on.
  \<open>_CacheConfigMixin._config_data\<close> tests \<open>if self._read_cache:\<close>, the truth value of
  the cached object: \<open>truthy_cache\<close>, with the truth value of a parsed result as the
  parameter \<open>truthy\<close> (a \<open>dict\<close> is true when it is not empty).
\<close>

record 'a config_file =
  path_order :: "path list"
  read_cache :: "'a option"

definition ConfigABC_config_data :: "('w \<Rightarrow> (error + 'a) \<times> 'w) \<Rightarrow> 'w \<Rightarrow> (error + 'a) \<times> 'w" where
  "ConfigABC_config_data parse_data w = parse_data w"

definition truthy_cache :: "('a \<Rightarrow> bool) \<Rightarrow> 'a option \<Rightarrow> bool" where
  "truthy_cache truthy c = (case c of None \<Rightarrow> False | Some d \<Rightarrow> truthy d)"

definition CacheConfigMixin_config_data ::
  "('a \<Rightarrow> bool) \<Rightarrow> (path list \<Rightarrow> 'w \<Rightarrow> (error + 'a) \<times> 'w) \<Rightarrow>
   'a config_file \<Rightarrow> 'w \<Rightarrow> (error + 'a) \<times> 'a config_file \<times> 'w" where
  "CacheConfigMixin_config_data truthy parse_data self w =
     (let miss =
        (case ConfigABC_config_data (parse_data (path_order self)) w of
           (Inl e, w') \<Rightarrow> (Inl e, self, w')
         | (Inr d, w') \<Rightarrow> (Inr d, self\<lparr>read_cache := Some d\<rparr>, w'))
      in case read_cache self of
           None \<Rightarrow> miss
         | Some cached \<Rightarrow> if truthy cached then (Inr cached, self, w) else miss)"

lemma CacheConfigMixin_miss:
  "\<not> truthy_cache truthy (read_cache self) \<Longrightarrow>
   CacheConfigMixin_config_data truthy parse_data self w =
     (case parse_data (path_order self) w of
        (Inl e, w') \<Rightarrow> (Inl e, self, w')
      | (Inr d, w') \<Rightarrow> (Inr d, self\<lparr>read_cache := Some d\<rparr>, w'))"
  by (auto simp: CacheConfigMixin_config_data_def ConfigABC_config_data_def truthy_cache_def
      split: option.splits)

lemma CacheConfigMixin_hit:
  "read_cache self = Some d \<Longrightarrow> truthy d \<Longrightarrow>
   CacheConfigMixin_config_data truthy parse_data self w = (Inr d, self, w)"
  by (simp add: CacheConfigMixin_config_data_def)

section \<open>\<open>ListConfigFile\<close>\<close>

text \<open>
  \<open>_line_generator\<close> opens each path of \<open>_path_order\<close> in turn and yields the lines of
  \<open>read().splitlines()\<close> that \<open>filter(len, ...)\<close> keeps. The model is the generator
  consumed to its end: the list of all the lines it yields, or the exception that stops
  it. \<open>ListConfigFile\<close> has no cache mixin: \<open>_config_data\<close> is \<open>_ConfigABC\<close>'s, and every
  access builds a new generator.
\<close>

fun ListConfigFile_line_generator ::
  "files \<Rightarrow> path list \<Rightarrow> path list \<Rightarrow> (error + string list) \<times> path list" where
  "ListConfigFile_line_generator files [] log = (Inr [], log)"
| "ListConfigFile_line_generator files (list_path # rest) log =
     (case files list_path of
        None \<Rightarrow> (Inl (FileNotFoundError list_path), log)
      | Some text \<Rightarrow>
          (case ListConfigFile_line_generator files rest (log @ [list_path]) of
             (Inl e, log') \<Rightarrow> (Inl e, log')
           | (Inr others, log') \<Rightarrow>
               (Inr (filter (\<lambda>l. length l \<noteq> 0) (splitlines text) @ others), log')))"

definition ListConfigFile_config_data ::
  "files \<Rightarrow> path list \<Rightarrow> path list \<Rightarrow> (error + string list) \<times> path list" where
  "ListConfigFile_config_data files order log =
     ConfigABC_config_data (ListConfigFile_line_generator files order) log"

definition example_list_files :: files where
  "example_list_files p =
     (if p = ''common/pruning.list'' then Some (''a'' @ [CHR 0x0A, CHR 0x0A] @ ''b'' @ [CHR 0x0A])
      else if p = ''linux/pruning.list'' then Some (''c'' @ [CHR 0x0A])
      else if p = ''debian/pruning.list'' then Some (''a'' @ [CHR 0x0A])
      else None)"

lemma ListConfigFile_line_generator_log:
  "ListConfigFile_line_generator files ps log = (Inr xs, log') \<Longrightarrow> log' = log @ ps"
  by (induction ps arbitrary: xs log) (fastforce split: option.splits sum.splits prod.splits)+

lemma ListConfigFile_line_generator_concat:
  assumes "\<forall>p \<in> set ps. files p = Some (content p)"
  shows "ListConfigFile_line_generator files ps log =
     (Inr (concat (map (\<lambda>p. filter (\<lambda>l. l \<noteq> []) (splitlines (content p))) ps)), log @ ps)"
  using assms by (induction ps arbitrary: log) simp_all

text \<open>
  Claim C6. The ordered-list merge is the concatenation, in layer order, of each layer's
  non-empty lines: when every path of the layer list \<open>ps\<close> can be read, with text
  \<open>content p\<close>, the merged list is the lines of the first layer, then those of the
  second, and so on, nothing removed or reordered but the blank lines; and no line that
  is kept is empty or holds a line boundary character.
\<close>

theorem ordered_list_merge_concat:
  assumes "\<forall>p \<in> set ps. files p = Some (content p)"
  shows "ListConfigFile_config_data files ps log =
     (Inr (concat (map (\<lambda>p. filter (\<lambda>l. l \<noteq> []) (splitlines (content p))) ps)), log @ ps) \<and>
     (\<forall>p. \<forall>l \<in> set (filter (\<lambda>l. l \<noteq> []) (splitlines (content p))).
        l \<noteq> [] \<and> (\<forall>c \<in> set l. \<not> is_linebreak c))"
proof (intro conjI allI ballI)
  show "ListConfigFile_config_data files ps log =
     (Inr (concat (map (\<lambda>p. filter (\<lambda>l. l \<noteq> []) (splitlines (content p))) ps)), log @ ps)"
    using ListConfigFile_line_generator_concat [OF assms]
    by (simp add: ListConfigFile_config_data_def ConfigABC_config_data_def)
next
  fix p l assume "l \<in> set (filter (\<lambda>l. l \<noteq> []) (splitlines (content p)))"
  then show "l \<noteq> []" by simp
next
  fix p l c
  assume "l \<in> set (filter (\<lambda>l. l \<noteq> []) (splitlines (content p)))" and "c \<in> set l"
  then show "\<not> is_linebreak c" using splitlines_no_linebreak [of l "content p" c] by simp
qed

text \<open>
  Three layers holding the lines a, (blank), b, then c, then a again merge to a, b, c, a.
\<close>

theorem ordered_list_merge_concat_witness:
  "ListConfigFile_config_data example_list_files
     [''common/pruning.list'', ''linux/pruning.list'', ''debian/pruning.list''] [] =
   (Inr [''a'', ''b'', ''c'', ''a''],
    [''common/pruning.list'', ''linux/pruning.list'', ''debian/pruning.list''])"
proof -
  have readable: "\<forall>p \<in> set [''common/pruning.list'', ''linux/pruning.list'', ''debian/pruning.list''].
      example_list_files p = Some (the (example_list_files p))"
    by (simp add: example_list_files_def)
  have lines: "concat (map (\<lambda>p. filter (\<lambda>l. l \<noteq> []) (splitlines (the (example_list_files p))))
      [''common/pruning.list'', ''linux/pruning.list'', ''debian/pruning.list'']) =
      [''a'', ''b'', ''c'', ''a'']"
    by (simp add: example_list_files_def splitlines_def is_linebreak_def)
  from ordered_list_merge_concat [OF readable, of "[]", THEN conjunct1]
  show ?thesis by (simp only: lines append_Nil)
qed

subsection \<open>\<open>DomainRegexList\<close>\<close>

text \<open>
  \<open>get_regex_pairs\<close> keeps one tuple of compiled pairs per encoding in the dictionary
  \<open>_compiled_regex\<close>; the test is \<open>encoding not in self._compiled_regex\<close>, so an empty
  tuple is kept as well. For an encoding that is not yet a key it maps
  \<open>_compile_encode_regex\<close> over \<open>self\<close>, that is over a new line generator, and
  \<open>tuple\<close> consumes the map: the lines of one file are compiled before the next file
  is opened, and the first exception ends it (\<open>DomainRegexList_compile_paths\<close>). When
  every file can be read the result is the compilation of the generator's lines
  (\<open>DomainRegexList_compile_paths_lines\<close>). The codec of \<open>str.encode\<close> and \<open>re.compile\<close>
  are the record \<open>regex_library\<close>; \<open>bytes_split\<close> is \<open>bytes.split(sep)\<close>, which raises
  \<open>ValueError\<close> for an empty separator.
\<close>

fun bytes_split_from :: "string \<Rightarrow> string \<Rightarrow> string \<Rightarrow> string list" where
  "bytes_split_from sep cur [] = [rev cur]"
| "bytes_split_from sep cur (c # cs) =
     (if sep \<noteq> [] \<and> take (length sep) (c # cs) = sep
      then rev cur # bytes_split_from sep [] (drop (length sep - 1) cs)
      else bytes_split_from sep (c # cur) cs)"

definition bytes_split :: "string \<Rightarrow> string \<Rightarrow> error + string list" where
  "bytes_split sep s =
     (if sep = [] then Inl (ValueError EmptySeparator) else Inr (bytes_split_from sep [] s))"

record 're regex_library =
  str_encode :: "string \<Rightarrow> string \<Rightarrow> error + string"
  re_compile :: "string \<Rightarrow> error + 're"

definition DomainRegexList_compile_encode_regex ::
  "'re regex_library \<Rightarrow> string \<Rightarrow> string \<Rightarrow> error + ('re \<times> string)" where
  "DomainRegexList_compile_encode_regex lib line encoding =
     (case str_encode lib line encoding of
        Inl e \<Rightarrow> Inl e
      | Inr encoded \<Rightarrow>
     (case str_encode lib ''#'' encoding of
        Inl e \<Rightarrow> Inl e
      | Inr sep \<Rightarrow>
     (case bytes_split sep encoded of
        Inl e \<Rightarrow> Inl e
      | Inr [pattern, replacement] \<Rightarrow>
          (case re_compile lib pattern of
             Inl e \<Rightarrow> Inl e
           | Inr compiled \<Rightarrow> Inr (compiled, replacement))
      | Inr parts \<Rightarrow> Inl (ValueError (UnpackMismatch (length parts))))))"

fun compile_lines ::
  "'re regex_library \<Rightarrow> string \<Rightarrow> string list \<Rightarrow> error + ('re \<times> string) list" where
  "compile_lines lib encoding [] = Inr []"
| "compile_lines lib encoding (line # lines) =
     (case DomainRegexList_compile_encode_regex lib line encoding of
        Inl e \<Rightarrow> Inl e
      | Inr pair \<Rightarrow>
          (case compile_lines lib encoding lines of
             Inl e \<Rightarrow> Inl e
           | Inr pairs \<Rightarrow> Inr (pair # pairs)))"

fun DomainRegexList_compile_paths ::
  "'re regex_library \<Rightarrow> files \<Rightarrow> string \<Rightarrow> path list \<Rightarrow> path list \<Rightarrow>
   (error + ('re \<times> string) list) \<times> path list" where
  "DomainRegexList_compile_paths lib files encoding [] log = (Inr [], log)"
| "DomainRegexList_compile_paths lib files encoding (list_path # rest) log =
     (case files list_path of
        None \<Rightarrow> (Inl (FileNotFoundError list_path), log)
      | Some text \<Rightarrow>
          (case compile_lines lib encoding (filter (\<lambda>l. length l \<noteq> 0) (splitlines text)) of
             Inl e \<Rightarrow> (Inl e, log @ [list_path])
           | Inr pairs \<Rightarrow>
               (case DomainRegexList_compile_paths lib files encoding rest (log @ [list_path]) of
                  (Inl e, log') \<Rightarrow> (Inl e, log')
                | (Inr others, log') \<Rightarrow> (Inr (pairs @ others), log'))))"

record 're domain_regex_list =
  list_path_order :: "path list"
  compiled_regex :: "(string \<times> ('re \<times> string) list) list"

definition DomainRegexList_get_regex_pairs ::
  "'re regex_library \<Rightarrow> files \<Rightarrow> string \<Rightarrow> 're domain_regex_list \<Rightarrow> path list \<Rightarrow>
   (error + ('re \<times> string) list) \<times> 're domain_regex_list \<times> path list" where
  "DomainRegexList_get_regex_pairs lib files encoding self log =
     (case map_of (compiled_regex self) encoding of
        Some pairs \<Rightarrow> (Inr pairs, self, log)
      | None \<Rightarrow>
          (case DomainRegexList_compile_paths lib files encoding (list_path_order self) log of
             (Inl e, log') \<Rightarrow> (Inl e, self, log')
           | (Inr pairs, log') \<Rightarrow>
               (Inr pairs,
                self\<lparr>compiled_regex := AList.update encoding pairs (compiled_regex self)\<rparr>,
                log')))"

definition example_regex_library :: "string regex_library" where
  "example_regex_library =
     \<lparr>str_encode = (\<lambda>text encoding. Inr text), re_compile = (\<lambda>pattern. Inr pattern)\<rparr>"

definition example_regex_files :: files where
  "example_regex_files p =
     (if p = ''common/domain_regex.list'' then Some (''a+#b'' @ [CHR 0x0A])
      else if p = ''linux/domain_regex.list'' then Some (''c#d'' @ [CHR 0x0A])
      else None)"

lemma DomainRegexList_compile_paths_log:
  "DomainRegexList_compile_paths lib files encoding ps log = (Inr pairs, log') \<Longrightarrow>
   log' = log @ ps"
proof (induction ps arbitrary: pairs log)
  case Nil
  then show ?case by simp
next
  case (Cons p ps)
  from Cons.prems obtain others where
    "DomainRegexList_compile_paths lib files encoding ps (log @ [p]) = (Inr others, log')"
    by (auto split: option.splits sum.splits prod.splits)
  from Cons.IH [OF this] show ?case by simp
qed

lemma compile_lines_append:
  "compile_lines lib encoding (xs @ ys) =
     (case compile_lines lib encoding xs of
        Inl e \<Rightarrow> Inl e
      | Inr ps \<Rightarrow>
          (case compile_lines lib encoding ys of
             Inl e \<Rightarrow> Inl e
           | Inr qs \<Rightarrow> Inr (ps @ qs)))"
  by (induction xs) (auto split: sum.splits)

lemma DomainRegexList_compile_paths_lines:
  "ListConfigFile_line_generator files ps log = (Inr lines, log') \<Longrightarrow>
   fst (DomainRegexList_compile_paths lib files encoding ps log) =
     compile_lines lib encoding lines"
proof (induction ps arbitrary: lines log)
  case Nil
  then show ?case by simp
next
  case (Cons p ps)
  from Cons.prems obtain t others where
    t: "files p = Some t" and
    rest: "ListConfigFile_line_generator files ps (log @ [p]) = (Inr others, log')" and
    lines: "lines = filter (\<lambda>l. length l \<noteq> 0) (splitlines t) @ others"
    by (auto split: option.splits sum.splits prod.splits)
  from Cons.IH [OF rest]
  have "fst (DomainRegexList_compile_paths lib files encoding ps (log @ [p])) =
      compile_lines lib encoding others" .
  with t lines show ?case
    by (auto simp: compile_lines_append split: sum.splits prod.splits)
qed

section \<open>\<open>MappingConfigFile\<close>\<close>

text \<open>
  A Python \<open>dict\<close> of strings is an association list in insertion order;
  \<open>new_dict[key] = value\<close> is \<open>AList.update\<close>, which replaces the value of a key that
  is present where it stands and appends a new key. \<open>key, value = line.split('=')\<close>
  unpacks the list of parts into two names and raises \<open>ValueError\<close> when the list does
  not have exactly two elements. \<open>access_times n\<close> is \<open>n\<close> content accesses of one
  mapping object in a row.
\<close>

type_synonym dict = "(string \<times> string) list"

definition parse_mapping_line :: "string \<Rightarrow> error + (string \<times> string)" where
  "parse_mapping_line line =
     (case str_split CHR ''='' line of
        [key, val] \<Rightarrow> Inr (key, val)
      | parts \<Rightarrow> Inl (ValueError (UnpackMismatch (length parts))))"

fun parse_mapping_lines :: "string list \<Rightarrow> dict \<Rightarrow> error + dict" where
  "parse_mapping_lines [] new_dict = Inr new_dict"
| "parse_mapping_lines (line # lines) new_dict =
     (case parse_mapping_line line of
        Inl e \<Rightarrow> Inl e
      | Inr (key, val) \<Rightarrow> parse_mapping_lines lines (AList.update key val new_dict))"

fun MappingConfigFile_read_paths ::
  "files \<Rightarrow> path list \<Rightarrow> dict \<Rightarrow> path list \<Rightarrow> (error + dict) \<times> path list" where
  "MappingConfigFile_read_paths files [] new_dict log = (Inr new_dict, log)"
| "MappingConfigFile_read_paths files (mapping_path # rest) new_dict log =
     (case files mapping_path of
        None \<Rightarrow> (Inl (FileNotFoundError mapping_path), log)
      | Some text \<Rightarrow>
          (case parse_mapping_lines (filter (\<lambda>l. length l \<noteq> 0) (splitlines text)) new_dict of
             Inl e \<Rightarrow> (Inl e, log @ [mapping_path])
           | Inr d \<Rightarrow> MappingConfigFile_read_paths files rest d (log @ [mapping_path])))"

definition MappingConfigFile_parse_data ::
  "files \<Rightarrow> path list \<Rightarrow> path list \<Rightarrow> (error + dict) \<times> path list" where
  "MappingConfigFile_parse_data files order log = MappingConfigFile_read_paths files order [] log"

definition MappingConfigFile_config_data ::
  "files \<Rightarrow> dict config_file \<Rightarrow> path list \<Rightarrow> (error + dict) \<times> dict config_file \<times> path list" where
  "MappingConfigFile_config_data files self log =
     CacheConfigMixin_config_data (\<lambda>d. length d \<noteq> 0) (MappingConfigFile_parse_data files) self log"

fun access_times ::
  "nat \<Rightarrow> files \<Rightarrow> dict config_file \<Rightarrow> path list \<Rightarrow> dict config_file \<times> path list" where
  "access_times 0 files self log = (self, log)"
| "access_times (Suc n) files self log =
     (case MappingConfigFile_config_data files self log of
        (result, self', log') \<Rightarrow> access_times n files self' log')"

definition example_map_files :: files where
  "example_map_files p =
     (if p = ''common/gn_flags.map'' then Some (''K=1'' @ [CHR 0x0A] @ ''J=0'' @ [CHR 0x0A])
      else if p = ''linux/gn_flags.map'' then Some (''K=2'' @ [CHR 0x0A, CHR 0x0A] @ ''X=3'')
      else if p = ''debian/gn_flags.map'' then Some (''Y=4'' @ [CHR 0x0A])
      else None)"

definition blank_map_files :: files where
  "blank_map_files p =
     (if p = ''common/gn_flags.map'' then Some [CHR 0x0A, CHR 0x0A]
      else if p = ''linux/gn_flags.map'' then Some []
      else None)"

lemma parse_mapping_line_iff:
  "parse_mapping_line line = Inr (key, val) \<longleftrightarrow>
     line = key @ CHR ''='' # val \<and> CHR ''='' \<notin> set key \<and> CHR ''='' \<notin> set val"
proof -
  have "parse_mapping_line line = Inr (key, val) \<longleftrightarrow> str_split CHR ''='' line = [key, val]"
    by (auto simp: parse_mapping_line_def split: list.splits)
  then show ?thesis by (simp add: str_split_pair)
qed

lemma parse_mapping_line_error:
  "count_list line CHR ''='' \<noteq> 1 \<Longrightarrow>
   parse_mapping_line line = Inl (ValueError (UnpackMismatch (Suc (count_list line CHR ''=''))))"
  using str_split_length [of "CHR ''=''" line]
  by (auto simp: parse_mapping_line_def split: list.splits)

text \<open>
  Claim C4, as stated, fails: the line \<open>a=b=c\<close> does not parse to the key \<open>a\<close> and the
  value \<open>b=c\<close>. \<open>split('=')\<close> splits at every \<open>=\<close>, the three parts do not unpack
  into two names, and parsing the file raises \<open>ValueError\<close>.
\<close>

theorem mapping_value_with_equals_counterexample:
  "parse_mapping_line ''a=b=c'' = Inl (ValueError (UnpackMismatch 3)) \<and>
   parse_mapping_line ''a=b=c'' \<noteq> Inr (''a'', ''b=c'') \<and>
   MappingConfigFile_parse_data
     (\<lambda>p. if p = ''common/gn_flags.map'' then Some (''a=b=c'' @ [CHR 0x0A]) else None)
     [''common/gn_flags.map''] [] =
     (Inl (ValueError (UnpackMismatch 3)), [''common/gn_flags.map''])"
  by (simp add: parse_mapping_line_def MappingConfigFile_parse_data_def splitlines_def is_linebreak_def)

text \<open>
  Claim C4, amended. A non-empty line parses exactly when it holds one \<open>=\<close>: the key
  is the text before it and the value the text after it. A line with no \<open>=\<close> or with
  two or more raises \<open>ValueError\<close> (the split parts, one more than the number of \<open>=\<close>,
  do not unpack into two names).
\<close>

theorem parse_mapping_line_exactly_one_equals:
  "parse_mapping_line line =
     (if count_list line CHR ''='' = 1
      then Inr (takeWhile (\<lambda>c. c \<noteq> CHR ''='') line, tl (dropWhile (\<lambda>c. c \<noteq> CHR ''='') line))
      else Inl (ValueError (UnpackMismatch (Suc (count_list line CHR ''='')))))"
proof (cases "count_list line CHR ''='' = 1")
  case False
  then show ?thesis by (simp add: parse_mapping_line_error)
next
  case True
  then have "length (str_split CHR ''='' line) = 2" by (simp add: str_split_length)
  then obtain k v where kv: "str_split CHR ''='' line = [k, v]"
    by (cases "str_split CHR ''='' line" rule: list.exhaust)
       (auto simp: length_Suc_conv)
  then have line: "line = k @ CHR ''='' # v" and k: "CHR ''='' \<notin> set k"
    by (simp_all add: str_split_pair)
  from k have "takeWhile (\<lambda>c. c \<noteq> CHR ''='') line = k"
    unfolding line by (induction k) auto
  moreover from k have "dropWhile (\<lambda>c. c \<noteq> CHR ''='') line = CHR ''='' # v"
    unfolding line by (induction k) auto
  ultimately show ?thesis using True kv by (simp add: parse_mapping_line_def)
qed

lemma map_upd_add_assoc: "m(k \<mapsto> v) ++ M = m ++ ([k \<mapsto> v] ++ M)"
  by (rule ext) (simp add: map_add_def split: option.splits)

lemma parse_mapping_lines_map:
  "\<exists>M. \<forall>d d'. parse_mapping_lines ls d = Inr d' \<longrightarrow> map_of d' = map_of d ++ M"
proof (induction ls)
  case Nil
  show ?case by (rule exI [of _ Map.empty]) simp
next
  case (Cons l ls)
  then obtain M where M: "\<And>d d'. parse_mapping_lines ls d = Inr d' \<Longrightarrow> map_of d' = map_of d ++ M"
    by blast
  show ?case
  proof (cases "parse_mapping_line l")
    case (Inl e)
    then show ?thesis by simp
  next
    case (Inr kv)
    obtain k v where kv: "kv = (k, v)" by (cases kv)
    have "map_of d' = map_of d ++ ([k \<mapsto> v] ++ M)"
      if "parse_mapping_lines (l # ls) d = Inr d'" for d d'
    proof -
      from that Inr kv have "parse_mapping_lines ls (AList.update k v d) = Inr d'" by simp
      then have "map_of d' = (map_of d)(k \<mapsto> v) ++ M" using M by (simp add: update_conv')
      also have "\<dots> = map_of d ++ ([k \<mapsto> v] ++ M)" by (rule map_upd_add_assoc)
      finally show ?thesis .
    qed
    then show ?thesis by blast
  qed
qed

lemma parse_mapping_lines_success_indep:
  "parse_mapping_lines ls d = Inr d' \<Longrightarrow> \<exists>e. parse_mapping_lines ls d0 = Inr e"
  by (induction ls arbitrary: d d0) (auto split: sum.splits)

lemma parse_mapping_lines_add:
  assumes "parse_mapping_lines ls d = Inr d'"
  shows "\<exists>e. parse_mapping_lines ls [] = Inr e \<and> map_of d' = map_of d ++ map_of e"
proof -
  obtain M where M: "\<And>d d'. parse_mapping_lines ls d = Inr d' \<Longrightarrow> map_of d' = map_of d ++ M"
    using parse_mapping_lines_map [of ls] by blast
  obtain e where e: "parse_mapping_lines ls [] = Inr e"
    using parse_mapping_lines_success_indep [OF assms] by blast
  from M [OF e] have "map_of e = M" by simp
  with M [OF assms] e show ?thesis by simp
qed

lemma MappingConfigFile_read_paths_append:
  "MappingConfigFile_read_paths files (ps @ qs) d log =
     (case MappingConfigFile_read_paths files ps d log of
        (Inl e, log') \<Rightarrow> (Inl e, log')
      | (Inr d1, log') \<Rightarrow> MappingConfigFile_read_paths files qs d1 log')"
  by (induction ps arbitrary: d log) (auto split: option.splits sum.splits)

lemma MappingConfigFile_read_paths_appendD:
  assumes "fst (MappingConfigFile_read_paths files (ps @ qs) d log) = Inr d'"
  shows "\<exists>d1 log1. MappingConfigFile_read_paths files ps d log = (Inr d1, log1) \<and>
           fst (MappingConfigFile_read_paths files qs d1 log1) = Inr d'"
  using assms unfolding MappingConfigFile_read_paths_append
  by (auto split: prod.splits sum.splits)

lemma MappingConfigFile_read_paths_ConsD:
  assumes "fst (MappingConfigFile_read_paths files (p # qs) d log) = Inr d'"
  shows "\<exists>d1 log1. MappingConfigFile_read_paths files [p] d log = (Inr d1, log1) \<and>
           fst (MappingConfigFile_read_paths files qs d1 log1) = Inr d'"
  using MappingConfigFile_read_paths_appendD [of files "[p]" qs d log d'] assms
  by simp

lemma MappingConfigFile_read_paths_log:
  "MappingConfigFile_read_paths files ps d log = (Inr d', log') \<Longrightarrow> log' = log @ ps"
  by (induction ps arbitrary: d log) (fastforce split: option.splits sum.splits)+

lemma MappingConfigFile_read_paths_log_indep:
  "fst (MappingConfigFile_read_paths files ps d log) = fst (MappingConfigFile_read_paths files ps d log0)"
  by (induction ps arbitrary: d log log0) (auto split: option.splits sum.splits)

lemma MappingConfigFile_read_paths_success_indep:
  "fst (MappingConfigFile_read_paths files ps d log) = Inr d' \<Longrightarrow>
   \<exists>e. fst (MappingConfigFile_read_paths files ps d0 log0) = Inr e"
proof (induction ps arbitrary: d d0 log log0)
  case Nil
  then show ?case by simp
next
  case (Cons p ps)
  from Cons.prems obtain t d1 where
    t: "files p = Some t" and
    d1: "parse_mapping_lines (filter (\<lambda>l. length l \<noteq> 0) (splitlines t)) d = Inr d1" and
    rest: "fst (MappingConfigFile_read_paths files ps d1 (log @ [p])) = Inr d'"
    by (auto split: option.splits sum.splits)
  from parse_mapping_lines_success_indep [OF d1] obtain e1 where
    "parse_mapping_lines (filter (\<lambda>l. length l \<noteq> 0) (splitlines t)) d0 = Inr e1" by blast
  with t Cons.IH [OF rest, of e1 "log0 @ [p]"] show ?case by simp
qed

lemma MappingConfigFile_read_paths_map:
  "\<exists>M. \<forall>d log d'. fst (MappingConfigFile_read_paths files ps d log) = Inr d' \<longrightarrow>
         map_of d' = map_of d ++ M"
proof (induction ps)
  case Nil
  show ?case by (rule exI [of _ Map.empty]) simp
next
  case (Cons p ps)
  then obtain M where M: "\<And>d log d'.
      fst (MappingConfigFile_read_paths files ps d log) = Inr d' \<Longrightarrow> map_of d' = map_of d ++ M"
    by blast
  show ?case
  proof (cases "files p")
    case None
    then show ?thesis by simp
  next
    case (Some t)
    obtain N where N: "\<And>d d'.
        parse_mapping_lines (filter (\<lambda>l. length l \<noteq> 0) (splitlines t)) d = Inr d' \<Longrightarrow>
        map_of d' = map_of d ++ N"
      using parse_mapping_lines_map by blast
    have "map_of d' = map_of d ++ (N ++ M)"
      if "fst (MappingConfigFile_read_paths files (p # ps) d log) = Inr d'" for d log d'
    proof -
      from that Some obtain d1 where
        d1: "parse_mapping_lines (filter (\<lambda>l. length l \<noteq> 0) (splitlines t)) d = Inr d1" and
        rest: "fst (MappingConfigFile_read_paths files ps d1 (log @ [p])) = Inr d'"
        by (auto split: sum.splits)
      from M [OF rest] N [OF d1] show ?thesis by simp
    qed
    then show ?thesis by blast
  qed
qed

lemma MappingConfigFile_read_paths_add:
  assumes "fst (MappingConfigFile_read_paths files ps d log) = Inr d'"
  shows "\<exists>e. fst (MappingConfigFile_read_paths files ps [] log0) = Inr e \<and>
             map_of d' = map_of d ++ map_of e"
proof -
  obtain M where M: "\<And>d log d'.
      fst (MappingConfigFile_read_paths files ps d log) = Inr d' \<Longrightarrow> map_of d' = map_of d ++ M"
    using MappingConfigFile_read_paths_map [of files ps] by blast
  obtain e where e: "fst (MappingConfigFile_read_paths files ps [] log0) = Inr e"
    using MappingConfigFile_read_paths_success_indep [OF assms] by blast
  from M [OF e] have "map_of e = M" by simp
  with M [OF assms] e show ?thesis by simp
qed

lemma MappingConfigFile_later_layers_silent:
  assumes "fst (MappingConfigFile_read_paths files ps d log) = Inr d'"
    and "\<forall>p \<in> set ps. \<forall>e. fst (MappingConfigFile_read_paths files [p] [] []) = Inr e \<longrightarrow> map_of e k = None"
  shows "map_of d' k = map_of d k"
  using assms
proof (induction ps arbitrary: d log)
  case Nil
  then show ?case by simp
next
  case (Cons p ps)
  from MappingConfigFile_read_paths_ConsD [OF Cons.prems(1)] obtain d1 log1 where
    one: "MappingConfigFile_read_paths files [p] d log = (Inr d1, log1)" and
    rest: "fst (MappingConfigFile_read_paths files ps d1 log1) = Inr d'"
    by blast
  from one have "fst (MappingConfigFile_read_paths files [p] d log) = Inr d1" by simp
  from MappingConfigFile_read_paths_add [OF this, of "[]"] obtain e where
    e: "fst (MappingConfigFile_read_paths files [p] [] []) = Inr e" and
    m: "map_of d1 = map_of d ++ map_of e" by blast
  from e Cons.prems(2) have "map_of e k = None" by simp
  with m have "map_of d1 k = map_of d k" by (simp add: map_add_def)
  moreover from Cons.IH [OF rest] Cons.prems(2) have "map_of d' k = map_of d1 k" by simp
  ultimately show ?case by simp
qed

text \<open>
  Claim C5. The merge is last-wins per key. Let the layers be \<open>ls1\<close>, then \<open>l2\<close>, then
  \<open>ls3\<close>, and let the merge succeed. If \<open>l2\<close> read on its own defines the key \<open>k\<close> with
  the value \<open>v\<close>, and no layer after it defines \<open>k\<close>, then the merged value of \<open>k\<close> is
  \<open>v\<close>, whatever the earlier layers \<open>ls1\<close> say about \<open>k\<close> and however many of them
  define it.
\<close>

theorem mapping_merge_last_wins:
  assumes merged: "fst (MappingConfigFile_parse_data files (ls1 @ l2 # ls3) log) = Inr merged"
    and l2: "fst (MappingConfigFile_parse_data files [l2] []) = Inr d2"
    and k: "map_of d2 k = Some v"
    and later: "\<forall>l \<in> set ls3. \<forall>d.
        fst (MappingConfigFile_parse_data files [l] []) = Inr d \<longrightarrow> map_of d k = None"
  shows "map_of merged k = Some v"
proof -
  from merged have "fst (MappingConfigFile_read_paths files (ls1 @ l2 # ls3) [] log) = Inr merged"
    by (simp add: MappingConfigFile_parse_data_def)
  from MappingConfigFile_read_paths_appendD [OF this] obtain d1 log1 where
    tail: "fst (MappingConfigFile_read_paths files (l2 # ls3) d1 log1) = Inr merged"
    by blast
  from MappingConfigFile_read_paths_ConsD [OF tail] obtain d12 log2 where
    mid: "MappingConfigFile_read_paths files [l2] d1 log1 = (Inr d12, log2)" and
    last: "fst (MappingConfigFile_read_paths files ls3 d12 log2) = Inr merged"
    by blast
  from mid have "fst (MappingConfigFile_read_paths files [l2] d1 log1) = Inr d12" by simp
  from MappingConfigFile_read_paths_add [OF this, of "[]"] l2
  have "map_of d12 = map_of d1 ++ map_of d2"
    by (simp add: MappingConfigFile_parse_data_def)
  with k have "map_of d12 k = Some v" by (simp add: map_add_def)
  moreover from later have "\<forall>p \<in> set ls3. \<forall>e.
      fst (MappingConfigFile_read_paths files [p] [] []) = Inr e \<longrightarrow> map_of e k = None"
    by (simp add: MappingConfigFile_parse_data_def)
  from MappingConfigFile_later_layers_silent [OF last this]
  have "map_of merged k = map_of d12 k" .
  ultimately show ?thesis by simp
qed

text \<open>
  The layers common (K=1, J=0), linux (K=2, X=3) and debian (Y=4): K is 2 after the merge.
\<close>

theorem mapping_merge_last_wins_witness:
  "fst (MappingConfigFile_parse_data example_map_files
       [''common/gn_flags.map'', ''linux/gn_flags.map'', ''debian/gn_flags.map''] [])
     = Inr [(''K'', ''2''), (''J'', ''0''), (''X'', ''3''), (''Y'', ''4'')] \<and>
   map_of [(''K'', ''2''), (''J'', ''0''), (''X'', ''3''), (''Y'', ''4'')] ''K'' = Some ''2''"
proof -
  have merged: "fst (MappingConfigFile_parse_data example_map_files
       ([''common/gn_flags.map''] @ ''linux/gn_flags.map'' # [''debian/gn_flags.map'']) [])
     = Inr [(''K'', ''2''), (''J'', ''0''), (''X'', ''3''), (''Y'', ''4'')]"
    by (simp add: example_map_files_def MappingConfigFile_parse_data_def splitlines_def
        is_linebreak_def parse_mapping_line_def)
  have l2: "fst (MappingConfigFile_parse_data example_map_files [''linux/gn_flags.map''] [])
     = Inr [(''K'', ''2''), (''X'', ''3'')]"
    by (simp add: example_map_files_def MappingConfigFile_parse_data_def splitlines_def
        is_linebreak_def parse_mapping_line_def)
  have k: "map_of [(''K'', ''2''), (''X'', ''3'')] ''K'' = Some ''2''" by simp
  have later: "\<forall>l \<in> set [''debian/gn_flags.map'']. \<forall>d.
        fst (MappingConfigFile_parse_data example_map_files [l] []) = Inr d \<longrightarrow> map_of d ''K'' = None"
    by (simp add: example_map_files_def MappingConfigFile_parse_data_def splitlines_def
        is_linebreak_def parse_mapping_line_def)
  from mapping_merge_last_wins [OF merged l2 k later] merged show ?thesis by simp
qed

section \<open>\<open>IniConfigFile\<close>\<close>

text \<open>
  \<open>configparser\<close> is a library the module imports. It enters the model as a record: the
  fresh parser \<open>ConfigParser()\<close> and \<open>read_file\<close>, which merges the text of one file into
  a parser or raises. The schema of the class is the predicate \<open>schema_validate\<close>.
  \<open>len()\<close> of a \<open>ConfigParser\<close> counts its sections and the default section, so a parsed
  INI is always true.
\<close>

record 'ini configparser =
  ConfigParser :: "'ini"
  read_file :: "'ini \<Rightarrow> string \<Rightarrow> path \<Rightarrow> error + 'ini"

fun IniConfigFile_read_paths ::
  "'ini configparser \<Rightarrow> files \<Rightarrow> path list \<Rightarrow> 'ini \<Rightarrow> path list \<Rightarrow> (error + 'ini) \<times> path list" where
  "IniConfigFile_read_paths cp files [] parsed_ini log = (Inr parsed_ini, log)"
| "IniConfigFile_read_paths cp files (ini_path # rest) parsed_ini log =
     (case files ini_path of
        None \<Rightarrow> (Inl (FileNotFoundError ini_path), log)
      | Some text \<Rightarrow>
          (case read_file cp parsed_ini text ini_path of
             Inl e \<Rightarrow> (Inl e, log @ [ini_path])
           | Inr parsed_ini' \<Rightarrow>
               IniConfigFile_read_paths cp files rest parsed_ini' (log @ [ini_path])))"

definition IniConfigFile_parse_data ::
  "'ini configparser \<Rightarrow> ('ini \<Rightarrow> bool) \<Rightarrow> files \<Rightarrow> path list \<Rightarrow> path list \<Rightarrow> (error + 'ini) \<times> path list" where
  "IniConfigFile_parse_data cp schema_validate files order log =
     (case IniConfigFile_read_paths cp files order (ConfigParser cp) log of
        (Inl e, log') \<Rightarrow> (Inl e, log')
      | (Inr parsed_ini, log') \<Rightarrow>
          if schema_validate parsed_ini then (Inr parsed_ini, log') else (Inl SchemaError, log'))"

definition IniConfigFile_config_data ::
  "'ini configparser \<Rightarrow> ('ini \<Rightarrow> bool) \<Rightarrow> files \<Rightarrow> 'ini config_file \<Rightarrow> path list \<Rightarrow>
   (error + 'ini) \<times> 'ini config_file \<times> path list" where
  "IniConfigFile_config_data cp schema_validate files self log =
     CacheConfigMixin_config_data (\<lambda>parsed_ini. True) (IniConfigFile_parse_data cp schema_validate files) self log"

definition example_configparser :: "string list configparser" where
  "example_configparser =
     \<lparr>ConfigParser = [], read_file = (\<lambda>parsed text source. Inr (parsed @ [text]))\<rparr>"

lemma IniConfigFile_read_paths_log:
  "IniConfigFile_read_paths cp files ps ini log = (Inr ini', log') \<Longrightarrow> log' = log @ ps"
  by (induction ps arbitrary: ini log) (fastforce split: option.splits sum.splits prod.splits)+

lemma IniConfigFile_parse_data_log:
  "IniConfigFile_parse_data cp sv files ps log = (Inr ini', log') \<Longrightarrow> log' = log @ ps"
  by (auto simp: IniConfigFile_parse_data_def split: prod.splits sum.splits if_splits
      dest: IniConfigFile_read_paths_log)

section \<open>Reading and caching\<close>

text \<open>
  Claim C3, as stated, fails for the ordered-list variant: \<open>ListConfigFile\<close> has no cache,
  and a second access of its content opens every layer file again. After two accesses
  of a list with two layers the read log holds each path twice.
\<close>

theorem list_config_rereads_counterexample:
  "snd (ListConfigFile_config_data example_list_files [''common/pruning.list'', ''linux/pruning.list'']
     (snd (ListConfigFile_config_data example_list_files
        [''common/pruning.list'', ''linux/pruning.list''] []))) =
   [''common/pruning.list'', ''linux/pruning.list'', ''common/pruning.list'', ''linux/pruning.list'']"
  by (simp add: ListConfigFile_config_data_def ConfigABC_config_data_def example_list_files_def)

text \<open>
  Claim C3, amended. For the variants with the cache mixin (the key-value mapping, the
  INI and its specializations): the first content access that returns a result has read
  every path of the layered path list in iteration order (the read log grows by
  \<open>path_order\<close>) and has stored the merged result in the cache; for a mapping that is
  not empty, and for every INI, each later access returns that stored result and reads
  no file, whatever the files hold by then. The ordered-list variant has no cache for its
  content: an access of \<open>_config_data\<close> (which iteration, membership and writing use,
  also in the specializations, which inherit it) that returns the merged lines has read
  every path of the list in order, every time. The domain-regex specialization caches its
  compiled pairs per encoding: the first \<open>get_regex_pairs\<close> for an encoding that
  returns has read every layer path in order and stored the pairs, and each later call
  for that encoding returns them and reads no file.
\<close>

theorem cached_access_contract:
  "(\<not> truthy_cache (\<lambda>d. length d \<noteq> 0) (read_cache self) \<and>
    MappingConfigFile_config_data files self log = (Inr d, self', log') \<longrightarrow>
      log' = log @ path_order self \<and> self' = self\<lparr>read_cache := Some d\<rparr> \<and>
      (d \<noteq> [] \<longrightarrow>
         (\<forall>files2 log2. MappingConfigFile_config_data files2 self' log2 = (Inr d, self', log2)))) \<and>
   (\<not> truthy_cache (\<lambda>i. True) (read_cache iself) \<and>
    IniConfigFile_config_data cp sv ifiles iself ilog = (Inr ini, iself', ilog') \<longrightarrow>
      ilog' = ilog @ path_order iself \<and> iself' = iself\<lparr>read_cache := Some ini\<rparr> \<and>
      (\<forall>files2 log2. IniConfigFile_config_data cp sv files2 iself' log2 = (Inr ini, iself', log2))) \<and>
   (ListConfigFile_config_data lfiles order llog = (Inr xs, llog') \<longrightarrow> llog' = llog @ order) \<and>
   (map_of (compiled_regex rself) encoding = None \<and>
    DomainRegexList_get_regex_pairs lib rfiles encoding rself rlog = (Inr pairs, rself', rlog') \<longrightarrow>
      rlog' = rlog @ list_path_order rself \<and>
      rself' = rself\<lparr>compiled_regex := AList.update encoding pairs (compiled_regex rself)\<rparr> \<and>
      (\<forall>files2 log2.
         DomainRegexList_get_regex_pairs lib files2 encoding rself' log2 = (Inr pairs, rself', log2)))"
proof (intro conjI impI)
  assume a: "\<not> truthy_cache (\<lambda>d. length d \<noteq> 0) (read_cache self) \<and>
    MappingConfigFile_config_data files self log = (Inr d, self', log')"
  then have parse: "MappingConfigFile_parse_data files (path_order self) log = (Inr d, log')"
    and self': "self' = self\<lparr>read_cache := Some d\<rparr>"
    by (auto simp: MappingConfigFile_config_data_def CacheConfigMixin_miss
        split: prod.splits sum.splits)
  from parse show "log' = log @ path_order self"
    by (simp add: MappingConfigFile_parse_data_def MappingConfigFile_read_paths_log)
  from self' show "self' = self\<lparr>read_cache := Some d\<rparr>" .
  assume "d \<noteq> []"
  with self' show "\<forall>files2 log2. MappingConfigFile_config_data files2 self' log2 = (Inr d, self', log2)"
    by (simp add: MappingConfigFile_config_data_def CacheConfigMixin_hit)
next
  assume a: "\<not> truthy_cache (\<lambda>i. True) (read_cache iself) \<and>
    IniConfigFile_config_data cp sv ifiles iself ilog = (Inr ini, iself', ilog')"
  then have parse: "IniConfigFile_parse_data cp sv ifiles (path_order iself) ilog = (Inr ini, ilog')"
    and self': "iself' = iself\<lparr>read_cache := Some ini\<rparr>"
    by (auto simp: IniConfigFile_config_data_def CacheConfigMixin_miss
        split: prod.splits sum.splits)
  from parse show "ilog' = ilog @ path_order iself"
    by (rule IniConfigFile_parse_data_log)
  from self' show "iself' = iself\<lparr>read_cache := Some ini\<rparr>" .
  from self' show "\<forall>files2 log2. IniConfigFile_config_data cp sv files2 iself' log2 = (Inr ini, iself', log2)"
    by (simp add: IniConfigFile_config_data_def CacheConfigMixin_hit)
next
  assume "ListConfigFile_config_data lfiles order llog = (Inr xs, llog')"
  then show "llog' = llog @ order"
    by (simp add: ListConfigFile_config_data_def ConfigABC_config_data_def
        ListConfigFile_line_generator_log)
next
  assume a: "map_of (compiled_regex rself) encoding = None \<and>
    DomainRegexList_get_regex_pairs lib rfiles encoding rself rlog = (Inr pairs, rself', rlog')"
  then have compile: "DomainRegexList_compile_paths lib rfiles encoding (list_path_order rself) rlog =
      (Inr pairs, rlog')"
    and self': "rself' = rself\<lparr>compiled_regex := AList.update encoding pairs (compiled_regex rself)\<rparr>"
    by (auto simp: DomainRegexList_get_regex_pairs_def split: prod.splits sum.splits)
  from compile show "rlog' = rlog @ list_path_order rself"
    by (rule DomainRegexList_compile_paths_log)
  from self' show
    "rself' = rself\<lparr>compiled_regex := AList.update encoding pairs (compiled_regex rself)\<rparr>" .
  from self' have "map_of (compiled_regex rself') encoding = Some pairs"
    by (simp add: update_conv')
  then show "\<forall>files2 log2.
      DomainRegexList_get_regex_pairs lib files2 encoding rself' log2 = (Inr pairs, rself', log2)"
    by (simp add: DomainRegexList_get_regex_pairs_def)
qed

theorem cached_access_contract_witness:
  "MappingConfigFile_config_data example_map_files
     \<lparr>path_order = [''common/gn_flags.map'', ''linux/gn_flags.map''], read_cache = None\<rparr> [] =
     (Inr [(''K'', ''2''), (''J'', ''0''), (''X'', ''3'')],
      \<lparr>path_order = [''common/gn_flags.map'', ''linux/gn_flags.map''],
       read_cache = Some [(''K'', ''2''), (''J'', ''0''), (''X'', ''3'')]\<rparr>,
      [''common/gn_flags.map'', ''linux/gn_flags.map'']) \<and>
   MappingConfigFile_config_data (\<lambda>p. None)
     \<lparr>path_order = [''common/gn_flags.map'', ''linux/gn_flags.map''],
      read_cache = Some [(''K'', ''2''), (''J'', ''0''), (''X'', ''3'')]\<rparr>
     [''common/gn_flags.map'', ''linux/gn_flags.map''] =
     (Inr [(''K'', ''2''), (''J'', ''0''), (''X'', ''3'')],
      \<lparr>path_order = [''common/gn_flags.map'', ''linux/gn_flags.map''],
       read_cache = Some [(''K'', ''2''), (''J'', ''0''), (''X'', ''3'')]\<rparr>,
      [''common/gn_flags.map'', ''linux/gn_flags.map'']) \<and>
   IniConfigFile_config_data example_configparser (\<lambda>i. True) (\<lambda>p. None)
     \<lparr>path_order = [''common/version.ini''], read_cache = Some [''[version]'']\<rparr>
     [''common/version.ini''] =
     (Inr [''[version]''],
      \<lparr>path_order = [''common/version.ini''], read_cache = Some [''[version]'']\<rparr>,
      [''common/version.ini'']) \<and>
   snd (ListConfigFile_config_data example_list_files [''linux/pruning.list''] [''linux/pruning.list'']) =
     [''linux/pruning.list'', ''linux/pruning.list''] \<and>
   DomainRegexList_get_regex_pairs example_regex_library example_regex_files ''UTF-8''
     \<lparr>list_path_order = [''common/domain_regex.list'', ''linux/domain_regex.list''],
      compiled_regex = []\<rparr> [] =
     (Inr [(''a+'', ''b''), (''c'', ''d'')],
      \<lparr>list_path_order = [''common/domain_regex.list'', ''linux/domain_regex.list''],
       compiled_regex = [(''UTF-8'', [(''a+'', ''b''), (''c'', ''d'')])]\<rparr>,
      [''common/domain_regex.list'', ''linux/domain_regex.list'']) \<and>
   DomainRegexList_get_regex_pairs example_regex_library (\<lambda>p. None) ''UTF-8''
     \<lparr>list_path_order = [''common/domain_regex.list'', ''linux/domain_regex.list''],
      compiled_regex = [(''UTF-8'', [(''a+'', ''b''), (''c'', ''d'')])]\<rparr>
     [''common/domain_regex.list'', ''linux/domain_regex.list''] =
     (Inr [(''a+'', ''b''), (''c'', ''d'')],
      \<lparr>list_path_order = [''common/domain_regex.list'', ''linux/domain_regex.list''],
       compiled_regex = [(''UTF-8'', [(''a+'', ''b''), (''c'', ''d'')])]\<rparr>,
      [''common/domain_regex.list'', ''linux/domain_regex.list''])"
proof -
  let ?order = "[''common/gn_flags.map'', ''linux/gn_flags.map'']"
  let ?d = "[(''K'', ''2''), (''J'', ''0''), (''X'', ''3'')]"
  let ?self = "\<lparr>path_order = ?order, read_cache = None :: dict option\<rparr>"
  let ?self' = "\<lparr>path_order = ?order, read_cache = Some ?d\<rparr>"
  let ?iself = "\<lparr>path_order = [''common/version.ini''], read_cache = None :: string list option\<rparr>"
  let ?iself' = "\<lparr>path_order = [''common/version.ini''], read_cache = Some [''[version]'']\<rparr>"
  let ?ifiles = "\<lambda>p. if p = ''common/version.ini'' then Some ''[version]'' else None"
  let ?rorder = "[''common/domain_regex.list'', ''linux/domain_regex.list'']"
  let ?pairs = "[(''a+'', ''b''), (''c'', ''d'')]"
  let ?rself = "\<lparr>list_path_order = ?rorder,
      compiled_regex = [] :: (string \<times> (string \<times> string) list) list\<rparr>"
  let ?rself' = "\<lparr>list_path_order = ?rorder, compiled_regex = [(''UTF-8'', ?pairs)]\<rparr>"
  have m1: "\<not> truthy_cache (\<lambda>d. length d \<noteq> 0) (read_cache ?self) \<and>
      MappingConfigFile_config_data example_map_files ?self [] = (Inr ?d, ?self', ?order)"
    by (simp add: truthy_cache_def MappingConfigFile_config_data_def CacheConfigMixin_config_data_def
        ConfigABC_config_data_def MappingConfigFile_parse_data_def example_map_files_def
        splitlines_def is_linebreak_def parse_mapping_line_def)
  have i1: "\<not> truthy_cache (\<lambda>i. True) (read_cache ?iself) \<and>
      IniConfigFile_config_data example_configparser (\<lambda>i. True) ?ifiles ?iself [] =
        (Inr [''[version]''], ?iself', [''common/version.ini''])"
    by (simp add: truthy_cache_def IniConfigFile_config_data_def CacheConfigMixin_config_data_def
        ConfigABC_config_data_def IniConfigFile_parse_data_def example_configparser_def)
  have l1: "ListConfigFile_config_data example_list_files [''linux/pruning.list''] [''linux/pruning.list''] =
      (Inr [''c''], snd (ListConfigFile_config_data example_list_files [''linux/pruning.list''] [''linux/pruning.list'']))"
    by (simp add: ListConfigFile_config_data_def ConfigABC_config_data_def example_list_files_def
        splitlines_def is_linebreak_def)
  have r1: "map_of (compiled_regex ?rself) ''UTF-8'' = None \<and>
      DomainRegexList_get_regex_pairs example_regex_library example_regex_files ''UTF-8'' ?rself [] =
        (Inr ?pairs, ?rself', ?rorder)"
    by (simp add: DomainRegexList_get_regex_pairs_def example_regex_library_def
        example_regex_files_def DomainRegexList_compile_encode_regex_def bytes_split_def
        splitlines_def is_linebreak_def)
  let ?llog = "snd (ListConfigFile_config_data example_list_files [''linux/pruning.list''] [''linux/pruning.list''])"
  note c = cached_access_contract [where self = ?self and files = example_map_files and log = "[]"
      and d = ?d and self' = ?self' and log' = ?order
      and iself = ?iself and cp = example_configparser and sv = "\<lambda>i. True" and ifiles = ?ifiles
      and ilog = "[]" and ini = "[''[version]'']" and iself' = ?iself' and ilog' = "[''common/version.ini'']"
      and lfiles = example_list_files and order = "[''linux/pruning.list'']"
      and llog = "[''linux/pruning.list'']" and xs = "[''c'']" and llog' = ?llog
      and rself = ?rself and encoding = "''UTF-8''" and lib = example_regex_library
      and rfiles = example_regex_files and rlog = "[]" and pairs = ?pairs and rself' = ?rself'
      and rlog' = ?rorder]
  have nonempty: "?d \<noteq> []" by simp
  from c m1 nonempty
  have "\<forall>files2 log2. MappingConfigFile_config_data files2 ?self' log2 = (Inr ?d, ?self', log2)"
    by blast
  then have m2: "MappingConfigFile_config_data (\<lambda>p. None) ?self' ?order = (Inr ?d, ?self', ?order)"
    by blast
  from c i1 have "\<forall>files2 log2. IniConfigFile_config_data example_configparser (\<lambda>i. True) files2 ?iself' log2
      = (Inr [''[version]''], ?iself', log2)"
    by blast
  then have i2: "IniConfigFile_config_data example_configparser (\<lambda>i. True) (\<lambda>p. None) ?iself' [''common/version.ini'']
      = (Inr [''[version]''], ?iself', [''common/version.ini''])"
    by blast
  from c l1 have l2: "?llog = [''linux/pruning.list''] @ [''linux/pruning.list'']" by blast
  from c r1 have "\<forall>files2 log2.
      DomainRegexList_get_regex_pairs example_regex_library files2 ''UTF-8'' ?rself' log2 =
        (Inr ?pairs, ?rself', log2)"
    by blast
  then have r2: "DomainRegexList_get_regex_pairs example_regex_library (\<lambda>p. None) ''UTF-8'' ?rself' ?rorder =
      (Inr ?pairs, ?rself', ?rorder)"
    by blast
  from m1 m2 i2 l2 r1 r2 show ?thesis by simp
qed

text \<open>
  Claim C10. For a config object with the cache mixin whose cache holds nothing true, an
  access whose parser returns a false result \<open>d\<close> (an empty \<open>dict\<close>) leaves the cache
  without a true value: \<open>_read_cache\<close> is assigned \<open>d\<close>, which the test
  \<open>if self._read_cache\<close> rejects. So the next access, from any state of the world, is
  again a full run of the parser over the same layer paths, and by the same theorem so is
  every access after it for as long as the parser's result is false.
\<close>

theorem falsy_result_never_cached:
  assumes "\<not> truthy_cache truthy (read_cache self)"
    and "CacheConfigMixin_config_data truthy parse_data self w = (Inr d, self', w')"
    and "\<not> truthy d"
  shows "\<not> truthy_cache truthy (read_cache self') \<and> path_order self' = path_order self \<and>
     (\<forall>w2. CacheConfigMixin_config_data truthy parse_data self' w2 =
        (case parse_data (path_order self) w2 of
           (Inl e, w3) \<Rightarrow> (Inl e, self', w3)
         | (Inr d2, w3) \<Rightarrow> (Inr d2, self'\<lparr>read_cache := Some d2\<rparr>, w3)))"
proof -
  from assms(1,2) have self': "self' = self\<lparr>read_cache := Some d\<rparr>"
    by (auto simp: CacheConfigMixin_miss split: prod.splits sum.splits)
  with assms(3) have falsy: "\<not> truthy_cache truthy (read_cache self')"
    by (simp add: truthy_cache_def)
  moreover from self' have "path_order self' = path_order self" by simp
  ultimately show ?thesis using CacheConfigMixin_miss [OF falsy, of parse_data] by simp
qed

text \<open>
  Two layers with no entries: the first access returns the empty mapping after opening
  both files, and the second access opens both again.
\<close>

theorem falsy_result_never_cached_witness:
  "MappingConfigFile_config_data blank_map_files
     \<lparr>path_order = [''common/gn_flags.map'', ''linux/gn_flags.map''], read_cache = None\<rparr> [] =
     (Inr [],
      \<lparr>path_order = [''common/gn_flags.map'', ''linux/gn_flags.map''], read_cache = Some []\<rparr>,
      [''common/gn_flags.map'', ''linux/gn_flags.map'']) \<and>
   MappingConfigFile_config_data blank_map_files
     \<lparr>path_order = [''common/gn_flags.map'', ''linux/gn_flags.map''], read_cache = Some []\<rparr>
     [''common/gn_flags.map'', ''linux/gn_flags.map''] =
     (Inr [],
      \<lparr>path_order = [''common/gn_flags.map'', ''linux/gn_flags.map''], read_cache = Some []\<rparr>,
      [''common/gn_flags.map'', ''linux/gn_flags.map'', ''common/gn_flags.map'', ''linux/gn_flags.map''])"
proof -
  let ?order = "[''common/gn_flags.map'', ''linux/gn_flags.map'']"
  let ?self = "\<lparr>path_order = ?order, read_cache = None :: dict option\<rparr>"
  let ?self' = "\<lparr>path_order = ?order, read_cache = Some ([] :: dict)\<rparr>"
  let ?truthy = "\<lambda>d :: dict. length d \<noteq> 0"
  have parse: "MappingConfigFile_parse_data blank_map_files ?order log = (Inr [], log @ ?order)" for log
    by (simp add: MappingConfigFile_parse_data_def blank_map_files_def splitlines_def is_linebreak_def)
  have miss: "\<not> truthy_cache ?truthy (read_cache ?self)"
    by (simp add: truthy_cache_def)
  have first: "CacheConfigMixin_config_data ?truthy (MappingConfigFile_parse_data blank_map_files) ?self [] =
      (Inr [], ?self', ?order)"
    by (simp add: CacheConfigMixin_config_data_def ConfigABC_config_data_def parse)
  have falsy: "\<not> ?truthy []" by simp
  from falsy_result_never_cached [OF miss first falsy]
  have "CacheConfigMixin_config_data ?truthy (MappingConfigFile_parse_data blank_map_files) ?self' ?order =
      (case MappingConfigFile_parse_data blank_map_files (path_order ?self) ?order of
         (Inl e, w3) \<Rightarrow> (Inl e, ?self', w3)
       | (Inr d2, w3) \<Rightarrow> (Inr d2, ?self'\<lparr>read_cache := Some d2\<rparr>, w3))"
    by blast
  then have second: "CacheConfigMixin_config_data ?truthy (MappingConfigFile_parse_data blank_map_files) ?self' ?order =
      (Inr [], ?self', ?order @ ?order)"
    by (simp add: parse)
  from first second show ?thesis by (simp add: MappingConfigFile_config_data_def)
qed

text \<open>
  For a key-value mapping file whose layers hold no entry, spelled out for any number of
  accesses in a row (\<open>access_times\<close>): each of them opens every layer file again.
\<close>

lemma empty_mapping_read_again_every_time:
  assumes "fst (MappingConfigFile_parse_data files (path_order self) []) = Inr []"
    and "\<not> truthy_cache (\<lambda>d. length d \<noteq> 0) (read_cache self)"
  shows "snd (access_times n files self log) = log @ concat (replicate n (path_order self))"
  using assms
proof (induction n arbitrary: self log)
  case 0
  show ?case by simp
next
  case (Suc n)
  let ?order = "path_order self"
  from Suc.prems(1) have "fst (MappingConfigFile_parse_data files ?order log) = Inr []"
    using MappingConfigFile_read_paths_log_indep [of files ?order "[]" log "[]"]
    by (simp add: MappingConfigFile_parse_data_def)
  then obtain log' where parse: "MappingConfigFile_parse_data files ?order log = (Inr [], log')"
    by (cases "MappingConfigFile_parse_data files ?order log") auto
  then have log': "log' = log @ ?order"
    by (simp add: MappingConfigFile_parse_data_def MappingConfigFile_read_paths_log)
  let ?self' = "self\<lparr>read_cache := Some []\<rparr>"
  from parse Suc.prems(2)
  have access: "MappingConfigFile_config_data files self log = (Inr [], ?self', log')"
    by (simp add: MappingConfigFile_config_data_def CacheConfigMixin_miss)
  have "fst (MappingConfigFile_parse_data files (path_order ?self') []) = Inr []"
    using Suc.prems(1) by simp
  moreover have "\<not> truthy_cache (\<lambda>d. length d \<noteq> 0) (read_cache ?self')"
    by (simp add: truthy_cache_def)
  ultimately have "snd (access_times n files ?self' log') =
      log' @ concat (replicate n (path_order ?self'))"
    by (rule Suc.IH)
  with access log' show ?case by simp
qed

section \<open>The parsed INI and its views: \<open>ExtraDepsIni\<close> and \<open>VersionIni\<close>\<close>

text \<open>
  What the accessors read of a parsed INI is, per section name, the options of that
  section: an association list of option names and values (the default section's
  options and the values' interpolation are \<open>configparser\<close>'s and are taken as already
  applied). \<open>self[section]\<close> raises \<open>KeyError\<close> for a section that is missing,
  \<open>section[key]\<close> for an option that is missing, and \<open>section.get(key, fallback=None)\<close>
  returns \<open>None\<close> instead.
\<close>

type_synonym ini = "(string \<times> dict) list"

definition IniConfigFile_getitem :: "ini \<Rightarrow> string \<Rightarrow> error + dict" where
  "IniConfigFile_getitem config_data key =
     (case map_of config_data key of None \<Rightarrow> Inl (KeyError key) | Some section \<Rightarrow> Inr section)"

definition section_getitem :: "dict \<Rightarrow> string \<Rightarrow> error + string" where
  "section_getitem section key =
     (case map_of section key of None \<Rightarrow> Inl (KeyError key) | Some v \<Rightarrow> Inr v)"

definition section_get :: "dict \<Rightarrow> string \<Rightarrow> string option" where
  "section_get section key = map_of section key"

subsection \<open>\<open>ExtraDepsIni\<close>\<close>

text \<open>
  \<open>_optional_keys = ('strip_leading_dirs')\<close> has no comma, so it is the string itself
  and not a tuple of one string. Both uses of it iterate over its characters, each a
  string of length one: unpacking it with \<open>*\<close> into \<open>_passthrough_properties\<close>, and
  the comprehension \<open>schema.Optional(x) for x in _optional_keys\<close> in \<open>_schema\<close>.
  \<open>__getattr__\<close> returns a value for every name: an option, \<open>None\<close>, or the mapping
  of the hashes that are present and not empty.
\<close>

definition ExtraDepsIni_hashes :: "string list" where
  "ExtraDepsIni_hashes = [''md5'', ''sha1'', ''sha256'', ''sha512'']"

definition ExtraDepsIni_required_keys :: "string list" where
  "ExtraDepsIni_required_keys = [''version'', ''url'', ''download_name'']"

definition ExtraDepsIni_optional_keys :: string where
  "ExtraDepsIni_optional_keys = ''strip_leading_dirs''"

definition ExtraDepsIni_passthrough_properties :: "string list" where
  "ExtraDepsIni_passthrough_properties =
     ExtraDepsIni_required_keys @ map (\<lambda>c. [c]) ExtraDepsIni_optional_keys"

datatype attr_value = StrValue string | NoneValue | DictValue dict

fun collect_hashes :: "dict \<Rightarrow> string list \<Rightarrow> dict \<Rightarrow> dict" where
  "collect_hashes section_dict [] hashes_dict = hashes_dict"
| "collect_hashes section_dict (hash_name # rest) hashes_dict =
     (case section_get section_dict hash_name of
        None \<Rightarrow> collect_hashes section_dict rest hashes_dict
      | Some v \<Rightarrow>
          if length v \<noteq> 0
          then collect_hashes section_dict rest (AList.update hash_name v hashes_dict)
          else collect_hashes section_dict rest hashes_dict)"

definition ExtraDepsSection_getattr ::
  "dict \<Rightarrow> string list \<Rightarrow> string list \<Rightarrow> string \<Rightarrow> attr_value" where
  "ExtraDepsSection_getattr section_dict passthrough_properties hashes name =
     (if name \<in> set passthrough_properties then
        (case section_get section_dict name of None \<Rightarrow> NoneValue | Some v \<Rightarrow> StrValue v)
      else if name = ''hashes'' then DictValue (collect_hashes section_dict hashes [])
      else NoneValue)"

text \<open>
  Modelled from the spec: the validator of \<open>third_party.schema\<close>, which is not among the
  sources. The class declares \<open>_schema\<close> (the keys below are the declaration's); what
  validating a mapping against such a declaration means is taken from the specification
  (an extra-deps section has the required keys, may have the optional ones, has at least
  one of the checksum keys, and a mismatch raises) and from the library's contract: every
  key of the data must match a key of the schema, every key of the schema that is not
  optional must be matched, and \<open>schema.And(str, len)\<close> accepts a string that is not
  empty. The default section is accepted as it is (\<open>DEFAULTSECT: object\<close>).
\<close>

definition ExtraDepsIni_section_schema :: "dict \<Rightarrow> bool" where
  "ExtraDepsIni_section_schema section_dict =
     (list_all (\<lambda>(key, v).
          (key \<in> set ExtraDepsIni_required_keys \<or>
           key \<in> set (map (\<lambda>c. [c]) ExtraDepsIni_optional_keys) \<or>
           key \<in> set ExtraDepsIni_hashes) \<and> length v \<noteq> 0) section_dict \<and>
      list_all (\<lambda>key. key \<in> set (map fst section_dict)) ExtraDepsIni_required_keys \<and>
      list_ex (\<lambda>key. key \<in> set (map fst section_dict)) ExtraDepsIni_hashes)"

definition ExtraDepsIni_schema :: "ini \<Rightarrow> bool" where
  "ExtraDepsIni_schema parsed_ini =
     (list_all (\<lambda>(name, section_dict).
          name = ''DEFAULT'' \<or> (length name \<noteq> 0 \<and> ExtraDepsIni_section_schema section_dict))
        parsed_ini \<and>
      list_ex (\<lambda>(name, section_dict). name \<noteq> ''DEFAULT'') parsed_ini)"

text \<open>
  \<open>ExtraDepsIni.__getitem__\<close> reads \<open>self._config_data[section]\<close>: the cached parse of
  \<open>IniConfigFile\<close>, which validates the merged INI against \<open>_schema\<close> before it hands
  it out, then the section lookup, then the accessor object.
\<close>

definition ExtraDepsIni_getitem ::
  "ini configparser \<Rightarrow> files \<Rightarrow> ini config_file \<Rightarrow> path list \<Rightarrow> string \<Rightarrow>
   (error + (string \<Rightarrow> attr_value)) \<times> ini config_file \<times> path list" where
  "ExtraDepsIni_getitem cp files self log section =
     (case IniConfigFile_config_data cp ExtraDepsIni_schema files self log of
        (Inl e, self', log') \<Rightarrow> (Inl e, self', log')
      | (Inr config_data, self', log') \<Rightarrow>
          (case IniConfigFile_getitem config_data section of
             Inl e \<Rightarrow> (Inl e, self', log')
           | Inr section_dict \<Rightarrow>
               (Inr (ExtraDepsSection_getattr section_dict ExtraDepsIni_passthrough_properties
                       ExtraDepsIni_hashes), self', log')))"

text \<open>
  An example parser for the examples below: the sections of a file are looked up by its
  path and merged into the parser option by option, later values replacing earlier ones.
  The file of the bundle \<open>common\<close> sets \<open>strip_leading_dirs\<close>; that of \<open>linux\<close> does
  not.
\<close>

definition merge_options :: "dict \<Rightarrow> dict \<Rightarrow> dict" where
  "merge_options old new = fold (\<lambda>(key, v). AList.update key v) new old"

definition merge_sections :: "ini \<Rightarrow> ini \<Rightarrow> ini" where
  "merge_sections old new =
     fold (\<lambda>(name, options) acc.
        AList.update name
          (merge_options (case map_of acc name of None \<Rightarrow> [] | Some known \<Rightarrow> known) options) acc)
       new old"

definition example_ini_parser :: "(path \<Rightarrow> ini option) \<Rightarrow> ini configparser" where
  "example_ini_parser sections_of =
     \<lparr>ConfigParser = [],
      read_file = (\<lambda>parsed text source.
        case sections_of source of
          None \<Rightarrow> Inl ConfigParserError
        | Some sections \<Rightarrow> Inr (merge_sections parsed sections))\<rparr>"

definition example_extra_deps :: ini where
  "example_extra_deps =
     [(''llvm'', [(''version'', ''7.0''), (''url'', ''https://example.org/llvm.tar.xz''),
        (''download_name'', ''llvm.tar.xz''), (''strip_leading_dirs'', ''llvm-7.0''),
        (''sha256'', ''abc'')])]"

definition example_extra_deps_plain :: ini where
  "example_extra_deps_plain =
     [(''llvm'', [(''version'', ''7.0''), (''url'', ''https://example.org/llvm.tar.xz''),
        (''download_name'', ''llvm.tar.xz''), (''sha256'', ''abc'')])]"

definition example_ini_files :: files where
  "example_ini_files p =
     (if p = ''common/extra_deps.ini'' \<or> p = ''linux/extra_deps.ini'' then Some ''[llvm]''
      else None)"

definition example_ini_sections :: "path \<Rightarrow> ini option" where
  "example_ini_sections p =
     (if p = ''common/extra_deps.ini'' then Some example_extra_deps
      else if p = ''linux/extra_deps.ini'' then Some example_extra_deps_plain
      else None)"

lemma strip_leading_dirs_not_passthrough:
  "''strip_leading_dirs'' \<notin> set ExtraDepsIni_passthrough_properties"
  by (simp add: ExtraDepsIni_passthrough_properties_def ExtraDepsIni_required_keys_def
      ExtraDepsIni_optional_keys_def)

lemma extra_deps_only_sha256:
  assumes "section_get section_dict ''sha256'' = Some v" and "v \<noteq> []"
    and "section_get section_dict ''md5'' = None"
    and "section_get section_dict ''sha1'' = None"
    and "section_get section_dict ''sha512'' = None"
  shows "ExtraDepsSection_getattr section_dict ExtraDepsIni_passthrough_properties
     ExtraDepsIni_hashes ''hashes'' = DictValue [(''sha256'', v)]"
  using assms
  by (simp add: ExtraDepsSection_getattr_def ExtraDepsIni_passthrough_properties_def
      ExtraDepsIni_required_keys_def ExtraDepsIni_optional_keys_def ExtraDepsIni_hashes_def)

lemma extra_deps_required_exposed:
  "name \<in> set ExtraDepsIni_required_keys \<Longrightarrow>
   ExtraDepsSection_getattr section_dict ExtraDepsIni_passthrough_properties ExtraDepsIni_hashes name =
     (case section_get section_dict name of None \<Rightarrow> NoneValue | Some v \<Rightarrow> StrValue v)"
  by (simp add: ExtraDepsSection_getattr_def ExtraDepsIni_passthrough_properties_def)

lemma ExtraDepsSection_strip_leading_dirs_None:
  "ExtraDepsSection_getattr section_dict ExtraDepsIni_passthrough_properties ExtraDepsIni_hashes
     ''strip_leading_dirs'' = NoneValue"
  by (simp add: ExtraDepsSection_getattr_def strip_leading_dirs_not_passthrough)

lemma ExtraDepsIni_section_schema_wrong_key:
  assumes "(''strip_leading_dirs'', v) \<in> set section_dict"
  shows "\<not> ExtraDepsIni_section_schema section_dict"
proof
  assume "ExtraDepsIni_section_schema section_dict"
  then have "list_all (\<lambda>(key, v).
      (key \<in> set ExtraDepsIni_required_keys \<or>
       key \<in> set (map (\<lambda>c. [c]) ExtraDepsIni_optional_keys) \<or>
       key \<in> set ExtraDepsIni_hashes) \<and> length v \<noteq> 0) section_dict"
    by (simp add: ExtraDepsIni_section_schema_def)
  with assms have "''strip_leading_dirs'' \<in> set ExtraDepsIni_required_keys \<or>
      ''strip_leading_dirs'' \<in> set (map (\<lambda>c. [c]) ExtraDepsIni_optional_keys) \<or>
      ''strip_leading_dirs'' \<in> set ExtraDepsIni_hashes"
    by (auto simp: list_all_iff)
  then show False
    by (simp add: ExtraDepsIni_required_keys_def ExtraDepsIni_optional_keys_def
        ExtraDepsIni_hashes_def)
qed

lemma ExtraDepsIni_schema_wrong_key:
  assumes "(name, section_dict) \<in> set parsed_ini" and "name \<noteq> ''DEFAULT''"
    and "(''strip_leading_dirs'', v) \<in> set section_dict"
  shows "\<not> ExtraDepsIni_schema parsed_ini"
proof
  assume "ExtraDepsIni_schema parsed_ini"
  with assms(1,2) have "ExtraDepsIni_section_schema section_dict"
    by (auto simp: ExtraDepsIni_schema_def list_all_iff)
  with ExtraDepsIni_section_schema_wrong_key [OF assms(3)] show False by simp
qed

lemma IniConfigFile_parse_data_schema:
  "IniConfigFile_parse_data cp schema_validate files order log = (Inr parsed_ini, log') \<Longrightarrow>
   schema_validate parsed_ini"
  by (auto simp: IniConfigFile_parse_data_def split: prod.splits sum.splits if_splits)

lemma ExtraDepsIni_strip_leading_dirs_never_loads:
  assumes "read_cache self = None"
    and "IniConfigFile_read_paths cp files (path_order self) (ConfigParser cp) log =
           (Inr parsed_ini, log')"
    and "(name, section_dict) \<in> set parsed_ini" and "name \<noteq> ''DEFAULT''"
    and "(''strip_leading_dirs'', v) \<in> set section_dict"
  shows "ExtraDepsIni_getitem cp files self log section = (Inl SchemaError, self, log')"
proof -
  from ExtraDepsIni_schema_wrong_key [OF assms(3,4,5)]
  have "\<not> ExtraDepsIni_schema parsed_ini" .
  with assms(2)
  have "IniConfigFile_parse_data cp ExtraDepsIni_schema files (path_order self) log =
      (Inl SchemaError, log')"
    by (simp add: IniConfigFile_parse_data_def)
  with assms(1) show ?thesis
    by (simp add: ExtraDepsIni_getitem_def IniConfigFile_config_data_def
        CacheConfigMixin_config_data_def ConfigABC_config_data_def)
qed

lemma ExtraDepsIni_getitem_valid:
  assumes "ExtraDepsIni_getitem cp files self log section = (Inr accessor, self', log')"
    and "read_cache self = None"
  shows "\<exists>config_data section_dict.
     ExtraDepsIni_schema config_data \<and> map_of config_data section = Some section_dict \<and>
     accessor = ExtraDepsSection_getattr section_dict ExtraDepsIni_passthrough_properties
                  ExtraDepsIni_hashes"
proof -
  from assms obtain config_data section_dict where
    parse: "IniConfigFile_parse_data cp ExtraDepsIni_schema files (path_order self) log =
       (Inr config_data, log')" and
    sec: "map_of config_data section = Some section_dict" and
    acc: "accessor = ExtraDepsSection_getattr section_dict ExtraDepsIni_passthrough_properties
            ExtraDepsIni_hashes"
    by (auto simp: ExtraDepsIni_getitem_def IniConfigFile_config_data_def
        CacheConfigMixin_config_data_def ConfigABC_config_data_def IniConfigFile_getitem_def
        split: prod.splits sum.splits option.splits)
  from IniConfigFile_parse_data_schema [OF parse] sec acc show ?thesis by blast
qed

lemma extra_deps_example_section:
  "map_sum id (\<lambda>accessor. map accessor [''version'', ''url'', ''download_name'', ''strip_leading_dirs'', ''hashes''])
     (fst (ExtraDepsIni_getitem (example_ini_parser example_ini_sections) example_ini_files
        \<lparr>path_order = [''linux/extra_deps.ini''], read_cache = None\<rparr> [] ''llvm'')) =
   Inr [StrValue ''7.0'', StrValue ''https://example.org/llvm.tar.xz'', StrValue ''llvm.tar.xz'',
        NoneValue, DictValue [(''sha256'', ''abc'')]]"
  by (simp add: ExtraDepsIni_getitem_def IniConfigFile_config_data_def
      CacheConfigMixin_config_data_def ConfigABC_config_data_def IniConfigFile_parse_data_def
      example_ini_parser_def example_ini_files_def example_ini_sections_def
      example_extra_deps_plain_def merge_sections_def merge_options_def
      ExtraDepsIni_schema_def ExtraDepsIni_section_schema_def
      IniConfigFile_getitem_def
      ExtraDepsSection_getattr_def ExtraDepsIni_passthrough_properties_def
      ExtraDepsIni_required_keys_def ExtraDepsIni_optional_keys_def ExtraDepsIni_hashes_def
      section_get_def)

text \<open>
  Claim C8 holds for the sections the accessor can be given: the checksum mapping of a
  section with only \<open>sha256\<close> has that one entry (\<open>extra_deps_only_sha256\<close>), the
  required fields are exposed by name (\<open>extra_deps_required_exposed\<close>), and the optional
  field, absent, gives \<open>None\<close>. It fails for an optional field that is present. An
  extra-deps file with a section that sets \<open>strip_leading_dirs\<close> cannot be read at all:
  the schema built from the string \<open>_optional_keys\<close> does not know that key, and
  \<open>extra_deps['llvm']\<close> raises the validation error instead of returning an accessor
  that exposes the field (\<open>ExtraDepsIni_strip_leading_dirs_never_loads\<close> for every such
  file). An accessor built by hand on such a section returns \<open>None\<close> for the name
  (\<open>ExtraDepsSection_strip_leading_dirs_None\<close>).
\<close>

theorem extra_deps_strip_leading_dirs_rejected:
  "ExtraDepsIni_getitem (example_ini_parser example_ini_sections) example_ini_files
     \<lparr>path_order = [''common/extra_deps.ini''], read_cache = None\<rparr> [] ''llvm'' =
   (Inl SchemaError, \<lparr>path_order = [''common/extra_deps.ini''], read_cache = None\<rparr>,
    [''common/extra_deps.ini''])"
  by (simp add: ExtraDepsIni_getitem_def IniConfigFile_config_data_def
      CacheConfigMixin_config_data_def ConfigABC_config_data_def IniConfigFile_parse_data_def
      example_ini_parser_def example_ini_files_def example_ini_sections_def
      example_extra_deps_def merge_sections_def merge_options_def
      ExtraDepsIni_schema_def ExtraDepsIni_section_schema_def
      ExtraDepsIni_required_keys_def ExtraDepsIni_optional_keys_def ExtraDepsIni_hashes_def)

subsection \<open>\<open>VersionIni\<close>\<close>

text \<open>
  The class declares its schema: a section \<open>version\<close> whose options
  \<open>chromium_version\<close> and \<open>release_revision\<close> are required and \<open>release_extra\<close> is
  optional, each \<open>schema.And(str, len)\<close>, a string that is not empty. The validator is
  the \<open>third_party.schema\<close> library; \<open>VersionIni_schema\<close> is the part of its verdict that
  the version string depends on (the library also refuses other sections and options).
  \<open>IniConfigFile._parse_data\<close> hands out a parsed INI only after that validation.
\<close>

definition VersionIni_schema :: "ini \<Rightarrow> bool" where
  "VersionIni_schema parsed_ini =
     (case map_of parsed_ini ''version'' of
        None \<Rightarrow> False
      | Some section \<Rightarrow>
          (case map_of section ''chromium_version'' of None \<Rightarrow> False | Some v \<Rightarrow> length v \<noteq> 0) \<and>
          (case map_of section ''release_revision'' of None \<Rightarrow> False | Some v \<Rightarrow> length v \<noteq> 0) \<and>
          (case map_of section ''release_extra'' of None \<Rightarrow> True | Some v \<Rightarrow> length v \<noteq> 0))"

definition VersionIni_chromium_version :: "ini \<Rightarrow> error + string" where
  "VersionIni_chromium_version config_data =
     (case IniConfigFile_getitem config_data ''version'' of
        Inl e \<Rightarrow> Inl e
      | Inr section \<Rightarrow> section_getitem section ''chromium_version'')"

definition VersionIni_release_revision :: "ini \<Rightarrow> error + string" where
  "VersionIni_release_revision config_data =
     (case IniConfigFile_getitem config_data ''version'' of
        Inl e \<Rightarrow> Inl e
      | Inr section \<Rightarrow> section_getitem section ''release_revision'')"

definition VersionIni_release_extra :: "ini \<Rightarrow> error + string option" where
  "VersionIni_release_extra config_data =
     (case IniConfigFile_getitem config_data ''version'' of
        Inl e \<Rightarrow> Inl e
      | Inr section \<Rightarrow> Inr (section_get section ''release_extra''))"

definition VersionIni_version_string :: "ini \<Rightarrow> error + string" where
  "VersionIni_version_string config_data =
     (case VersionIni_chromium_version config_data of
        Inl e \<Rightarrow> Inl e
      | Inr chromium_version \<Rightarrow>
     (case VersionIni_release_revision config_data of
        Inl e \<Rightarrow> Inl e
      | Inr release_revision \<Rightarrow>
     (let result = chromium_version @ ''-'' @ release_revision in
      case VersionIni_release_extra config_data of
        Inl e \<Rightarrow> Inl e
      | Inr None \<Rightarrow> Inr result
      | Inr (Some release_extra) \<Rightarrow>
          if length release_extra \<noteq> 0 then Inr (result @ ''~'' @ release_extra)
          else Inr result)))"

text \<open>
  Claim C9. For a parsed version INI that passed the schema, with the Chromium version
  \<open>cv\<close> and the release revision \<open>rr\<close>: the version string is \<open>cv-rr\<close> when
  \<open>release_extra\<close> is not defined, and \<open>cv-rr~extra\<close> when it is defined as \<open>extra\<close>.
\<close>

theorem version_string_format:
  assumes "VersionIni_schema config_data"
    and "map_of config_data ''version'' = Some section"
    and "map_of section ''chromium_version'' = Some cv"
    and "map_of section ''release_revision'' = Some rr"
  shows "VersionIni_version_string config_data =
     Inr (case map_of section ''release_extra'' of
            None \<Rightarrow> cv @ ''-'' @ rr
          | Some extra \<Rightarrow> cv @ ''-'' @ rr @ ''~'' @ extra)"
  using assms
  by (auto simp: VersionIni_version_string_def VersionIni_chromium_version_def
      VersionIni_release_revision_def VersionIni_release_extra_def IniConfigFile_getitem_def
      section_getitem_def section_get_def VersionIni_schema_def split: option.splits)

text \<open>
  The spec's examples: 90.0 and 1 give 90.0-1; with the extra \<open>extra\<close>, 90.0-1~extra.
\<close>

theorem version_string_format_witness:
  "VersionIni_version_string
     [(''version'', [(''chromium_version'', ''90.0''), (''release_revision'', ''1'')])] =
     Inr ''90.0-1'' \<and>
   VersionIni_version_string
     [(''version'', [(''chromium_version'', ''90.0''), (''release_revision'', ''1''),
        (''release_extra'', ''extra'')])] =
     Inr ''90.0-1~extra''"
proof -
  let ?s1 = "[(''chromium_version'', ''90.0''), (''release_revision'', ''1'')]"
  let ?s2 = "[(''chromium_version'', ''90.0''), (''release_revision'', ''1''),
        (''release_extra'', ''extra'')]"
  have v1: "VersionIni_schema [(''version'', ?s1)]" and v2: "VersionIni_schema [(''version'', ?s2)]"
    by (simp_all add: VersionIni_schema_def)
  have "VersionIni_version_string [(''version'', ?s1)] = Inr ''90.0-1''"
    using version_string_format [OF v1, of ?s1 "''90.0''" "''1''"] by simp
  moreover have "VersionIni_version_string [(''version'', ?s2)] = Inr ''90.0-1~extra''"
    using version_string_format [OF v2, of ?s2 "''90.0''" "''1''"] by simp
  ultimately show ?thesis by simp
qed

section \<open>Bundle metadata and the file system of \<open>ConfigBundle\<close>\<close>

text \<open>
  \<open>joinpath\<close> is \<open>pathlib\<close>'s \<open>/\<close> for a name that is one path component. What
  \<open>from_base_name\<close> asks of the outside world is the record \<open>environment\<close>: the
  directory that \<open>get_resources_dir()\<close> returns and the constant \<open>CONFIG_BUNDLES_DIR\<close>
  (both of the module \<open>common\<close>; a call of \<open>get_resources_dir\<close> that raises ends
  \<open>from_base_name\<close> before it has done anything and is not modelled), the finitely many
  paths that exist, which paths are directories, the
  names \<open>iterdir()\<close> lists in a directory, and for an INI path the validated
  \<open>ConfigParser\<close> that \<open>IniConfigFile._config_data\<close> returns for a fresh object on
  that one path, or the exception it raises. \<open>strip\<close> is \<open>str.strip()\<close> on code points
  below 256.
\<close>

definition is_space :: "char \<Rightarrow> bool" where
  "is_space c =
     (c \<in> set [CHR 0x09, CHR 0x0A, CHR 0x0B, CHR 0x0C, CHR 0x0D, CHR 0x1C, CHR 0x1D, CHR 0x1E,
                CHR 0x1F, CHR 0x20, CHR 0x85, CHR 0xA0])"

definition strip :: "string \<Rightarrow> string" where
  "strip s = rev (dropWhile is_space (rev (dropWhile is_space s)))"

definition joinpath :: "path \<Rightarrow> string \<Rightarrow> path" where
  "joinpath directory name = directory @ ''/'' @ name"

abbreviation BASEBUNDLEMETA_INI :: string where "BASEBUNDLEMETA_INI \<equiv> ''basebundlemeta.ini''"

abbreviation PATCH_ORDER_LIST :: string where "PATCH_ORDER_LIST \<equiv> ''patch_order.list''"

abbreviation PATCHES_DIR :: string where "PATCHES_DIR \<equiv> ''patches''"

record environment =
  resources_dir :: path
  CONFIG_BUNDLES_DIR :: string
  existing :: "path list"
  is_dir :: "path \<Rightarrow> bool"
  iterdir :: "path \<Rightarrow> string list"
  parsed_ini :: "path \<Rightarrow> error + ini"

definition path_exists :: "environment \<Rightarrow> path \<Rightarrow> bool" where
  "path_exists env p = (p \<in> set (existing env))"

definition BaseBundleMetaIni_depends :: "environment \<Rightarrow> path \<Rightarrow> error + string list" where
  "BaseBundleMetaIni_depends env p =
     (if \<not> path_exists env p then Inl (FileNotFoundError p)
      else case parsed_ini env p of
        Inl e \<Rightarrow> Inl e
      | Inr config_data \<Rightarrow>
          (case IniConfigFile_getitem config_data ''basebundle'' of
             Inl e \<Rightarrow> Inl e
           | Inr section \<Rightarrow>
               (case section_get section ''depends'' of
                  None \<Rightarrow> Inr []
                | Some v \<Rightarrow> Inr (map strip (str_split CHR '','' v)))))"

section \<open>\<open>ConfigBundle\<close>\<close>

subsection \<open>The files of a bundle\<close>

text \<open>
  \<open>_FILE_DEF\<close> maps a file name to its class, or to \<open>None\<close> for a name that is
  skipped; a name that is not a key raises \<open>KeyError\<close>, which \<open>_parse_data\<close> turns into
  \<open>ValueError\<close>. A config file object inside the bundle is its class, its path list and,
  for the patch list, the patches directory once it is set.
\<close>

datatype config_class =
  ListConfigFile | DomainRegexList | ExtraDepsIni | MappingConfigFile | PatchesConfig | VersionIni

definition FILE_DEF :: "(string \<times> config_class option) list" where
  "FILE_DEF =
     [(BASEBUNDLEMETA_INI, None),
      (''pruning.list'', Some ListConfigFile),
      (''domain_regex.list'', Some DomainRegexList),
      (''domain_substitution.list'', Some ListConfigFile),
      (''extra_deps.ini'', Some ExtraDepsIni),
      (''gn_flags.map'', Some MappingConfigFile),
      (PATCH_ORDER_LIST, Some PatchesConfig),
      (PATCHES_DIR, None),
      (''version.ini'', Some VersionIni)]"

record bundle_file =
  file_class :: config_class
  file_path_order :: "path list"
  patches_dir :: "path option"

type_synonym file_dict = "(string \<times> bundle_file) list"

fun scan_entries :: "environment \<Rightarrow> path \<Rightarrow> string list \<Rightarrow> file_dict \<Rightarrow> error + file_dict" where
  "scan_entries env directory [] file_dict = Inr file_dict"
| "scan_entries env directory (name # rest) file_dict =
     (let config_path = joinpath directory name in
      case map_of file_dict name of
        Some config_file \<Rightarrow>
          (case update_last_path (path_exists env) config_path (file_path_order config_file) of
             (Inl e, order') \<Rightarrow> Inl e
           | (Inr added, order') \<Rightarrow>
               scan_entries env directory rest
                 (AList.update name (config_file\<lparr>file_path_order := order'\<rparr>) file_dict))
      | None \<Rightarrow>
          (case map_of FILE_DEF name of
             None \<Rightarrow> Inl (ValueError (UnknownFiles directory))
           | Some None \<Rightarrow> scan_entries env directory rest file_dict
           | Some (Some config_class) \<Rightarrow>
               if \<not> path_exists env config_path then Inl (FileNotFoundError config_path)
               else scan_entries env directory rest
                 (AList.update name
                    \<lparr>file_class = config_class, file_path_order = [config_path],
                     patches_dir = None\<rparr> file_dict)))"

fun scan_directories :: "environment \<Rightarrow> path list \<Rightarrow> file_dict \<Rightarrow> error + file_dict" where
  "scan_directories env [] file_dict = Inr file_dict"
| "scan_directories env (directory # rest) file_dict =
     (if \<not> is_dir env directory then Inl (NotADirectoryError directory)
      else case scan_entries env directory (iterdir env directory) file_dict of
             Inl e \<Rightarrow> Inl e
           | Inr file_dict' \<Rightarrow> scan_directories env rest file_dict')"

definition ConfigBundle_parse_data :: "environment \<Rightarrow> path list \<Rightarrow> error + file_dict" where
  "ConfigBundle_parse_data env order = scan_directories env order []"

definition ConfigBundle_config_data ::
  "environment \<Rightarrow> file_dict config_file \<Rightarrow> (error + file_dict) \<times> file_dict config_file" where
  "ConfigBundle_config_data env self =
     (case CacheConfigMixin_config_data (\<lambda>d. length d \<noteq> 0)
             (\<lambda>order w. (ConfigBundle_parse_data env order, w)) self () of
        (result, self', w) \<Rightarrow> (result, self'))"

definition PatchesConfig_set_patches_dir ::
  "environment \<Rightarrow> path \<Rightarrow> bundle_file \<Rightarrow> error + bundle_file" where
  "PatchesConfig_set_patches_dir env p self =
     (if \<not> is_dir env p then Inl (NotADirectoryError p) else Inr (self\<lparr>patches_dir := Some p\<rparr>))"

subsection \<open>\<open>from_base_name\<close>\<close>

text \<open>
  \<open>pending_explore\<close> is a deque, the list of its elements from left to right:
  \<open>appendleft\<close> is \<open>#\<close>, and \<open>pop()\<close> takes the last element. \<open>explore_depends\<close> is the
  \<open>for\<close> loop over the dependencies of one bundle, \<open>explore_loop\<close> the \<open>while\<close> loop.
  The loop ends because every name it appends adds a path that exists and was not yet a
  layer, and only finitely many paths exist.
\<close>

fun explore_depends ::
  "environment \<Rightarrow> path \<Rightarrow> string list \<Rightarrow> path list \<Rightarrow> string list \<Rightarrow>
   error + (path list \<times> string list)" where
  "explore_depends env config_bundles_dir [] order pending_explore = Inr (order, pending_explore)"
| "explore_depends env config_bundles_dir (dependency_name # rest) order pending_explore =
     (case update_first_path (path_exists env) (joinpath config_bundles_dir dependency_name) order of
        (Inl e, order') \<Rightarrow> Inl e
      | (Inr added, order') \<Rightarrow>
          explore_depends env config_bundles_dir rest order'
            (if added then dependency_name # pending_explore else pending_explore))"

definition explore_measure :: "environment \<Rightarrow> path list \<Rightarrow> string list \<Rightarrow> nat" where
  "explore_measure env order pending_explore =
     2 * card (set (existing env) - set order) + length pending_explore"

lemma explore_depends_measure:
  "explore_depends env dir deps order pe = Inr (order', pe') \<Longrightarrow>
   explore_measure env order' pe' \<le> explore_measure env order pe"
proof (induction deps arbitrary: order pe)
  case Nil
  then show ?case by simp
next
  case (Cons d ds)
  let ?p = "joinpath dir d"
  show ?case
  proof (cases "?p \<in> set order")
    case True
    with Cons.prems have "explore_depends env dir ds order pe = Inr (order', pe')"
      by (simp add: update_first_path_known)
    then show ?thesis by (rule Cons.IH)
  next
    case False
    show ?thesis
    proof (cases "path_exists env ?p")
      case False
      with \<open>?p \<notin> set order\<close> Cons.prems show ?thesis
        by (simp add: update_first_path_missing)
    next
      case True
      with \<open>?p \<notin> set order\<close> Cons.prems
      have "explore_depends env dir ds (?p # order) (d # pe) = Inr (order', pe')"
        by (simp add: update_first_path_new)
      then have "explore_measure env order' pe' \<le> explore_measure env (?p # order) (d # pe)"
        by (rule Cons.IH)
      moreover have "?p \<in> set (existing env) - set order"
        using True \<open>?p \<notin> set order\<close> by (simp add: path_exists_def)
      then have "card (set (existing env) - set (?p # order)) < card (set (existing env) - set order)"
        by (intro psubset_card_mono) auto
      then have "explore_measure env (?p # order) (d # pe) \<le> explore_measure env order pe"
        by (simp add: explore_measure_def)
      ultimately show ?thesis by simp
    qed
  qed
qed

function explore_loop ::
  "environment \<Rightarrow> path \<Rightarrow> path list \<Rightarrow> string list \<Rightarrow> string set \<Rightarrow> error + path list" where
  "explore_loop env config_bundles_dir order pending_explore known_names =
     (if pending_explore = [] then Inr order
      else
        let base_bundle_name = last pending_explore;
            pending_explore = butlast pending_explore
        in if base_bundle_name \<in> known_names
           then Inl (ValueError (DuplicateDependency base_bundle_name))
           else
             case BaseBundleMetaIni_depends env
                    (joinpath (joinpath config_bundles_dir base_bundle_name) BASEBUNDLEMETA_INI) of
               Inl e \<Rightarrow> Inl e
             | Inr depends \<Rightarrow>
                 (case explore_depends env config_bundles_dir depends order pending_explore of
                    Inl e \<Rightarrow> Inl e
                  | Inr (order', pending_explore') \<Rightarrow>
                      explore_loop env config_bundles_dir order' pending_explore'
                        (insert base_bundle_name known_names)))"
  by pat_completeness auto
termination
proof (relation "measure (\<lambda>(env, dir, order, pe, known). explore_measure env order pe)")
  show "wf (measure (\<lambda>(env, dir, order, pe, known). explore_measure env order pe))" by simp
next
  fix env :: environment and config_bundles_dir order pending_explore known_names
    x xa x2 xb y xc
  assume ne: "pending_explore \<noteq> []"
    and x: "x = last pending_explore"
    and xa: "xa = butlast pending_explore"
    and ex: "explore_depends env config_bundles_dir x2 order xa = Inr xb" "(xc, y) = xb"
  from ex have "explore_measure env xc y \<le> explore_measure env order xa"
    using explore_depends_measure [of env config_bundles_dir x2 order xa xc y] by simp
  also from ne xa have "\<dots> < explore_measure env order pending_explore"
    by (simp add: explore_measure_def)
  finally show "((env, config_bundles_dir, xc, y, insert x known_names),
       env, config_bundles_dir, order, pending_explore, known_names)
      \<in> measure (\<lambda>(env, dir, order, pe, known). explore_measure env order pe)"
    by simp
qed

declare explore_loop.simps [simp del]

definition ConfigBundle_from_base_name ::
  "environment \<Rightarrow> string \<Rightarrow> error + file_dict config_file" where
  "ConfigBundle_from_base_name env name =
     (let config_bundles_dir = joinpath (resources_dir env) (CONFIG_BUNDLES_DIR env);
          p = joinpath config_bundles_dir name
      in if \<not> path_exists env p then Inl (FileNotFoundError p)
         else
           case explore_loop env config_bundles_dir [p] [name] {} of
             Inl e \<Rightarrow> Inl e
           | Inr order \<Rightarrow>
               (case ConfigBundle_config_data env \<lparr>path_order = order, read_cache = None\<rparr> of
                  (Inl (KeyError k), new_bundle) \<Rightarrow> Inr new_bundle
                | (Inl e, new_bundle) \<Rightarrow> Inl e
                | (Inr file_dict, new_bundle) \<Rightarrow>
                    (case map_of file_dict PATCH_ORDER_LIST of
                       None \<Rightarrow> Inr new_bundle
                     | Some patches \<Rightarrow>
                         (case PatchesConfig_set_patches_dir env
                                 (joinpath (resources_dir env) PATCHES_DIR) patches of
                            Inl e \<Rightarrow> Inl e
                          | Inr patches' \<Rightarrow>
                              Inr (new_bundle\<lparr>read_cache :=
                                     Some (AList.update PATCH_ORDER_LIST patches' file_dict)\<rparr>)))))"

definition resolved_layers :: "environment \<Rightarrow> string \<Rightarrow> error + path list" where
  "resolved_layers env name = map_sum id path_order (ConfigBundle_from_base_name env name)"

subsection \<open>Example bundle trees\<close>

text \<open>
  A file system with one directory per bundle, each holding only its metadata file, from
  the list of the bundles and their \<open>depends\<close> values. \<open>example_tree\<close>: \<open>a\<close> depends on
  \<open>b\<close> and \<open>c\<close>, \<open>b\<close> on \<open>d\<close>, \<open>c\<close> on \<open>e\<close>. \<open>example_diamond\<close>: \<open>b\<close> and \<open>c\<close>
  both depend on \<open>d\<close>.
\<close>

definition example_environment :: "(string \<times> string option) list \<Rightarrow> environment" where
  "example_environment metas =
     \<lparr>resources_dir = ''resources'',
      CONFIG_BUNDLES_DIR = ''config_bundles'',
      existing = ''resources/patches'' #
        concat (map (\<lambda>(n, d). [''resources/config_bundles/'' @ n,
                               ''resources/config_bundles/'' @ n @ ''/basebundlemeta.ini'']) metas),
      is_dir = (\<lambda>p. p \<in> set (''resources/patches'' #
                  map (\<lambda>(n, d). ''resources/config_bundles/'' @ n) metas)),
      iterdir = (\<lambda>p. [''basebundlemeta.ini'']),
      parsed_ini = (\<lambda>p.
        case find (\<lambda>(n, d). p = ''resources/config_bundles/'' @ n @ ''/basebundlemeta.ini'') metas of
          None \<Rightarrow> Inl (FileNotFoundError p)
        | Some (n, d) \<Rightarrow>
            Inr [(''basebundle'', (''display_name'', n) #
                   (case d of None \<Rightarrow> [] | Some v \<Rightarrow> [(''depends'', v)]))])\<rparr>"

definition example_tree :: "(string \<times> string option) list" where
  "example_tree =
     [(''a'', Some ''b, c''), (''b'', Some ''d''), (''c'', Some ''e''), (''d'', None), (''e'', None)]"

definition example_self_dependency :: "(string \<times> string option) list" where
  "example_self_dependency = [(''a'', Some ''a'')]"

definition example_diamond :: "(string \<times> string option) list" where
  "example_diamond =
     [(''a'', Some ''b,c''), (''b'', Some ''d''), (''c'', Some ''d''), (''d'', None)]"

subsection \<open>The two traversal orders to compare with\<close>

text \<open>
  \<open>spec_stack_loop\<close> follows the words of the specification: a pending-exploration
  stack seeded with the bundle name and a visited-name set; pop a name, fail if it was
  visited, mark it, load its metadata, and for each declared dependency in the listed
  order prepend its directory as a new layer and, if it was newly added, push it. The
  stack is a list with its top first.

  \<open>breadth_first\<close> is level-order traversal: the next level is what the bundles of the
  level declare, bundle by bundle and in declaration order, without the dependencies
  whose directory is a layer already (\<open>fresh_dependencies\<close>); each new dependency becomes
  the new front layer. A bundle whose metadata cannot be loaded declares nothing.
\<close>

function spec_stack_loop ::
  "environment \<Rightarrow> path \<Rightarrow> path list \<Rightarrow> string list \<Rightarrow> string set \<Rightarrow> error + path list" where
  "spec_stack_loop env config_bundles_dir order [] visited = Inr order"
| "spec_stack_loop env config_bundles_dir order (name # stack) visited =
     (if name \<in> visited then Inl (ValueError (DuplicateDependency name))
      else
        case BaseBundleMetaIni_depends env
               (joinpath (joinpath config_bundles_dir name) BASEBUNDLEMETA_INI) of
          Inl e \<Rightarrow> Inl e
        | Inr depends \<Rightarrow>
            (case explore_depends env config_bundles_dir depends order stack of
               Inl e \<Rightarrow> Inl e
             | Inr (order', stack') \<Rightarrow>
                 spec_stack_loop env config_bundles_dir order' stack' (insert name visited)))"
  by pat_completeness auto
termination
proof (relation "measure (\<lambda>(env, dir, order, stack, visited). explore_measure env order stack)")
  show "wf (measure (\<lambda>(env, dir, order, stack, visited). explore_measure env order stack))"
    by simp
next
  fix env :: environment and config_bundles_dir order name stack visited x2 x y xa
  assume ex: "explore_depends env config_bundles_dir x2 order stack = Inr x" "(xa, y) = x"
  from ex have "explore_measure env xa y \<le> explore_measure env order stack"
    using explore_depends_measure [of env config_bundles_dir x2 order stack xa y] by simp
  also have "\<dots> < explore_measure env order (name # stack)"
    by (simp add: explore_measure_def)
  finally show "((env, config_bundles_dir, xa, y, insert name visited),
       env, config_bundles_dir, order, name # stack, visited)
      \<in> measure (\<lambda>(env, dir, order, stack, visited). explore_measure env order stack)"
    by simp
qed

definition spec_stack_resolution :: "environment \<Rightarrow> string \<Rightarrow> error + path list" where
  "spec_stack_resolution env name =
     (let config_bundles_dir = joinpath (resources_dir env) (CONFIG_BUNDLES_DIR env);
          p = joinpath config_bundles_dir name
      in if \<not> path_exists env p then Inl (FileNotFoundError p)
         else spec_stack_loop env config_bundles_dir [p] [name] {})"

definition declared_dependencies :: "environment \<Rightarrow> path \<Rightarrow> string \<Rightarrow> string list" where
  "declared_dependencies env config_bundles_dir name =
     (case BaseBundleMetaIni_depends env
             (joinpath (joinpath config_bundles_dir name) BASEBUNDLEMETA_INI) of
        Inl e \<Rightarrow> []
      | Inr depends \<Rightarrow> depends)"

fun fresh_dependencies :: "(string \<Rightarrow> path) \<Rightarrow> path list \<Rightarrow> string list \<Rightarrow> string list" where
  "fresh_dependencies layer seen [] = []"
| "fresh_dependencies layer seen (d # ds) =
     (if layer d \<in> set seen then fresh_dependencies layer seen ds
      else d # fresh_dependencies layer (layer d # seen) ds)"

inductive breadth_first ::
  "(string \<Rightarrow> string list) \<Rightarrow> (string \<Rightarrow> path) \<Rightarrow> string list \<Rightarrow> path list \<Rightarrow> path list \<Rightarrow> bool"
  for declared :: "string \<Rightarrow> string list" and layer :: "string \<Rightarrow> path" where
  breadth_first_done: "breadth_first declared layer [] layers layers"
| breadth_first_level:
    "level \<noteq> [] \<Longrightarrow>
     next_level = fresh_dependencies layer layers (concat (map declared level)) \<Longrightarrow>
     breadth_first declared layer next_level (rev (map layer next_level) @ layers) result \<Longrightarrow>
     breadth_first declared layer level layers result"

subsection \<open>The queue visits level by level\<close>

lemma ConfigBundle_config_data_order:
  "ConfigBundle_config_data env self = (result, self') \<Longrightarrow> path_order self' = path_order self"
  by (auto simp: ConfigBundle_config_data_def CacheConfigMixin_config_data_def
      ConfigABC_config_data_def Let_def split: prod.splits sum.splits option.splits if_splits)

lemma ConfigBundle_from_base_name_order:
  assumes "ConfigBundle_from_base_name env name = Inr new_bundle"
  shows "explore_loop env (joinpath (resources_dir env) (CONFIG_BUNDLES_DIR env))
           [joinpath (joinpath (resources_dir env) (CONFIG_BUNDLES_DIR env)) name] [name] {} =
         Inr (path_order new_bundle)"
  using assms
  by (auto simp: ConfigBundle_from_base_name_def Let_def
      split: if_splits sum.splits prod.splits option.splits error.splits
      dest!: ConfigBundle_config_data_order)

lemma breadth_first_deterministic:
  "breadth_first declared layer level layers r \<Longrightarrow>
   breadth_first declared layer level layers r' \<Longrightarrow> r = r'"
proof (induction arbitrary: r' rule: breadth_first.induct)
  case (breadth_first_done layers)
  then show ?case by (auto elim: breadth_first.cases)
next
  case (breadth_first_level level next_level layers result)
  from breadth_first_level.prems breadth_first_level.hyps(1,2)
  have "breadth_first declared layer next_level (rev (map layer next_level) @ layers) r'"
    by (auto elim: breadth_first.cases)
  then show ?case by (rule breadth_first_level.IH)
qed

lemma fresh_dependencies_append:
  "fresh_dependencies layer seen (xs @ ys) =
     fresh_dependencies layer seen xs @
     fresh_dependencies layer (rev (map layer (fresh_dependencies layer seen xs)) @ seen) ys"
  by (induction xs arbitrary: seen) simp_all

lemma explore_depends_fresh:
  "explore_depends env dir deps order pe = Inr (order', pe') \<Longrightarrow>
   order' = rev (map (joinpath dir) (fresh_dependencies (joinpath dir) order deps)) @ order \<and>
   pe' = rev (fresh_dependencies (joinpath dir) order deps) @ pe"
proof (induction deps arbitrary: order pe)
  case Nil
  then show ?case by simp
next
  case (Cons d ds)
  let ?p = "joinpath dir d"
  show ?case
  proof (cases "?p \<in> set order")
    case True
    with Cons.prems have "explore_depends env dir ds order pe = Inr (order', pe')"
      by (simp add: update_first_path_known)
    from Cons.IH [OF this] True show ?thesis by simp
  next
    case False
    show ?thesis
    proof (cases "path_exists env ?p")
      case no: False
      with False Cons.prems show ?thesis by (simp add: update_first_path_missing)
    next
      case True
      with False Cons.prems
      have "explore_depends env dir ds (?p # order) (d # pe) = Inr (order', pe')"
        by (simp add: update_first_path_new)
      from Cons.IH [OF this] False show ?thesis by simp
    qed
  qed
qed

lemma explore_loop_empty: "explore_loop env dir order [] known = Inr order"
  by (simp add: explore_loop.simps)

lemma explore_loop_step:
  assumes "pe \<noteq> []" and "explore_loop env dir order pe known = Inr r"
  shows "\<exists>deps order' pe'.
     last pe \<notin> known \<and>
     BaseBundleMetaIni_depends env (joinpath (joinpath dir (last pe)) BASEBUNDLEMETA_INI) = Inr deps \<and>
     explore_depends env dir deps order (butlast pe) = Inr (order', pe') \<and>
     explore_loop env dir order' pe' (insert (last pe) known) = Inr r"
  using assms
  by (subst (asm) explore_loop.simps)
     (auto simp: Let_def split: if_splits sum.splits prod.splits)

lemma explore_loop_breadth_first:
  assumes "explore_loop env dir order pe known = Inr r"
    and "rev pe = cur @ nxt" and "cur \<noteq> []"
  shows "breadth_first (declared_dependencies env dir) (joinpath dir)
     (nxt @ fresh_dependencies (joinpath dir) order (concat (map (declared_dependencies env dir) cur)))
     (rev (map (joinpath dir)
        (fresh_dependencies (joinpath dir) order (concat (map (declared_dependencies env dir) cur)))) @ order)
     r"
  using assms
proof (induction env dir order pe known arbitrary: cur nxt rule: explore_loop.induct)
  case (1 env dir order pe known)
  let ?D = "declared_dependencies env dir"
  let ?L = "joinpath dir"
  from \<open>cur \<noteq> []\<close> obtain n cur' where cur: "cur = n # cur'" by (cases cur) auto
  from \<open>rev pe = cur @ nxt\<close> have "rev (rev pe) = rev (n # cur' @ nxt)"
    by (simp add: cur)
  then have pe: "pe = rev (cur' @ nxt) @ [n]" by simp
  have ne: "pe \<noteq> []" and last: "last pe = n" and butlast: "butlast pe = rev (cur' @ nxt)"
    unfolding pe by (simp, rule last_snoc, rule butlast_snoc)
  from explore_loop_step [OF ne "1.prems"(1)] last butlast obtain deps order' pe' where
    fresh: "n \<notin> known" and
    deps: "BaseBundleMetaIni_depends env (joinpath (joinpath dir n) BASEBUNDLEMETA_INI) = Inr deps" and
    ex: "explore_depends env dir deps order (rev (cur' @ nxt)) = Inr (order', pe')" and
    rest: "explore_loop env dir order' pe' (insert n known) = Inr r"
    by auto
  define new_n where "new_n = fresh_dependencies ?L order deps"
  from explore_depends_fresh [OF ex]
  have order': "order' = rev (map ?L new_n) @ order" and pe': "pe' = rev new_n @ rev (cur' @ nxt)"
    by (simp_all add: new_n_def)
  from deps have Dn: "?D n = deps" by (simp add: declared_dependencies_def)
  define new' where "new' = fresh_dependencies ?L order' (concat (map ?D cur'))"
  have split: "fresh_dependencies ?L order (concat (map ?D cur)) = new_n @ new'"
    by (simp add: cur Dn fresh_dependencies_append new_n_def new'_def order')
  have layers: "rev (map ?L (new_n @ new')) @ order = rev (map ?L new') @ order'"
    by (simp add: order')
  note IH = "1.IH" [OF ne last [symmetric] butlast [symmetric] fresh deps ex refl rest]
  have "breadth_first ?D ?L (nxt @ new_n @ new') (rev (map ?L new') @ order') r"
  proof (cases "cur' = []")
    case False
    have "rev pe' = cur' @ (nxt @ new_n)" by (simp add: pe')
    from IH [OF this False] show ?thesis by (simp add: new'_def)
  next
    case True
    then have new': "new' = []" by (simp add: new'_def)
    show ?thesis
    proof (cases "nxt @ new_n = []")
      case True
      with \<open>cur' = []\<close> have "pe' = []" by (simp add: pe')
      with rest have "r = order'" by (simp add: explore_loop_empty)
      with True new' show ?thesis by (simp add: breadth_first_done)
    next
      case False
      have "rev pe' = (nxt @ new_n) @ []" using \<open>cur' = []\<close> by (simp add: pe')
      from IH [OF this False]
      have "breadth_first ?D ?L
          (fresh_dependencies ?L order' (concat (map ?D (nxt @ new_n))))
          (rev (map ?L (fresh_dependencies ?L order' (concat (map ?D (nxt @ new_n))))) @ order') r"
        by simp
      with False have "breadth_first ?D ?L (nxt @ new_n) order' r"
        by (rule breadth_first_level [OF _ refl])
      with new' show ?thesis by simp
    qed
  qed
  then show ?case unfolding split layers by simp
qed

lemmas example_eval =
  ConfigBundle_from_base_name_def example_environment_def joinpath_def path_exists_def
  explore_loop.simps BaseBundleMetaIni_depends_def IniConfigFile_getitem_def section_get_def
  strip_def is_space_def update_first_path_def check_path_add_def
  ConfigBundle_config_data_def CacheConfigMixin_config_data_def ConfigABC_config_data_def
  ConfigBundle_parse_data_def FILE_DEF_def

lemma example_tree_layers:
  "ConfigBundle_from_base_name (example_environment example_tree) ''a'' =
   Inr \<lparr>path_order =
          [''resources/config_bundles/e'', ''resources/config_bundles/d'',
           ''resources/config_bundles/c'', ''resources/config_bundles/b'',
           ''resources/config_bundles/a''],
        read_cache = Some []\<rparr>"
  by (simp add: example_eval example_tree_def)

text \<open>
  Claim C1, as stated, fails: on \<open>example_tree\<close> the layer order of \<open>from_base_name\<close> is
  e, d, c, b, a, and the stack-based, depth-first traversal of the specification gives
  d, e, c, b, a. \<open>appendleft\<close> with \<open>pop()\<close> is a queue.
\<close>

theorem from_base_name_not_stack_order_counterexample:
  "resolved_layers (example_environment example_tree) ''a'' =
     Inr [''resources/config_bundles/e'', ''resources/config_bundles/d'',
          ''resources/config_bundles/c'', ''resources/config_bundles/b'',
          ''resources/config_bundles/a''] \<and>
   spec_stack_resolution (example_environment example_tree) ''a'' =
     Inr [''resources/config_bundles/d'', ''resources/config_bundles/e'',
          ''resources/config_bundles/c'', ''resources/config_bundles/b'',
          ''resources/config_bundles/a''] \<and>
   resolved_layers (example_environment example_tree) ''a'' \<noteq>
     spec_stack_resolution (example_environment example_tree) ''a''"
proof -
  have "spec_stack_resolution (example_environment example_tree) ''a'' =
     Inr [''resources/config_bundles/d'', ''resources/config_bundles/e'',
          ''resources/config_bundles/c'', ''resources/config_bundles/b'',
          ''resources/config_bundles/a'']"
    by (simp add: spec_stack_resolution_def example_environment_def joinpath_def path_exists_def
        BaseBundleMetaIni_depends_def IniConfigFile_getitem_def section_get_def
        strip_def is_space_def update_first_path_def check_path_add_def example_tree_def)
  with example_tree_layers show ?thesis by (simp add: resolved_layers_def)
qed

text \<open>
  Claim C1, amended. \<open>from_base_name\<close> resolves the dependency graph by queue-based,
  breadth-first, declaration-order traversal. Whenever it returns a bundle, the
  front-to-back layer order of that bundle is the one and only order that the
  level-order traversal from the bundle's name produces: the bundle's own directory last,
  before it the dependencies in the reverse of the order of their first discovery. (The
  model is a function, so the same inputs give the same order.)
\<close>

theorem from_base_name_breadth_first:
  assumes "ConfigBundle_from_base_name env name = Inr new_bundle"
  shows "breadth_first
      (declared_dependencies env (joinpath (resources_dir env) (CONFIG_BUNDLES_DIR env)))
      (joinpath (joinpath (resources_dir env) (CONFIG_BUNDLES_DIR env)))
      [name] [joinpath (joinpath (resources_dir env) (CONFIG_BUNDLES_DIR env)) name] layers
    \<longleftrightarrow> layers = path_order new_bundle"
proof -
  let ?dir = "joinpath (resources_dir env) (CONFIG_BUNDLES_DIR env)"
  let ?D = "declared_dependencies env ?dir"
  let ?L = "joinpath ?dir"
  have loop: "explore_loop env ?dir [?L name] [name] {} = Inr (path_order new_bundle)"
    using assms by (rule ConfigBundle_from_base_name_order)
  have "rev [name] = [name] @ []" by simp
  from explore_loop_breadth_first [OF loop this]
  have "breadth_first ?D ?L
      (fresh_dependencies ?L [?L name] (concat (map ?D [name])))
      (rev (map ?L (fresh_dependencies ?L [?L name] (concat (map ?D [name])))) @ [?L name])
      (path_order new_bundle)"
    by simp
  then have holds: "breadth_first ?D ?L [name] [?L name] (path_order new_bundle)"
    by (rule breadth_first_level [OF _ refl, rotated]) simp
  show ?thesis
  proof
    assume "breadth_first ?D ?L [name] [?L name] layers"
    then show "layers = path_order new_bundle"
      using holds by (rule breadth_first_deterministic)
  next
    assume "layers = path_order new_bundle"
    with holds show "breadth_first ?D ?L [name] [?L name] layers" by simp
  qed
qed

theorem from_base_name_breadth_first_witness:
  "ConfigBundle_from_base_name (example_environment example_tree) ''a'' =
   Inr \<lparr>path_order =
          [''resources/config_bundles/e'', ''resources/config_bundles/d'',
           ''resources/config_bundles/c'', ''resources/config_bundles/b'',
           ''resources/config_bundles/a''],
        read_cache = Some []\<rparr> \<and>
   breadth_first
     (declared_dependencies (example_environment example_tree) ''resources/config_bundles'')
     (joinpath ''resources/config_bundles'') [''a''] [''resources/config_bundles/a'']
     [''resources/config_bundles/e'', ''resources/config_bundles/d'',
      ''resources/config_bundles/c'', ''resources/config_bundles/b'',
      ''resources/config_bundles/a'']"
proof -
  have dir: "joinpath (resources_dir (example_environment example_tree))
      (CONFIG_BUNDLES_DIR (example_environment example_tree)) = ''resources/config_bundles''"
    by (simp add: example_environment_def joinpath_def)
  have root: "joinpath ''resources/config_bundles'' ''a'' = ''resources/config_bundles/a''"
    by (simp add: joinpath_def)
  from from_base_name_breadth_first [OF example_tree_layers,
      of "[''resources/config_bundles/e'', ''resources/config_bundles/d'',
           ''resources/config_bundles/c'', ''resources/config_bundles/b'',
           ''resources/config_bundles/a'']"]
  show ?thesis unfolding dir root using example_tree_layers by simp
qed

subsection \<open>A name is never popped twice\<close>

text \<open>
  A name enters \<open>pending_explore\<close> only when \<open>update_first_path\<close> has just added its
  directory, and the directory of every name that is pending or known is a layer. So the
  pending names are distinct and none is known: the test
  \<open>base_bundle_name in known_names\<close> is false at every iteration.
\<close>

definition pending_invariant ::
  "(string \<Rightarrow> path) \<Rightarrow> path list \<Rightarrow> string list \<Rightarrow> string set \<Rightarrow> bool" where
  "pending_invariant layer order pending_explore known_names \<longleftrightarrow>
     distinct pending_explore \<and> set pending_explore \<inter> known_names = {} \<and>
     layer ` (set pending_explore \<union> known_names) \<subseteq> set order"

lemma fresh_dependencies_not_seen:
  "d \<in> set (fresh_dependencies layer seen ds) \<Longrightarrow> layer d \<notin> set seen"
proof (induction ds arbitrary: seen)
  case Nil
  then show ?case by simp
next
  case (Cons a ds)
  show ?case
  proof (cases "layer a \<in> set seen")
    case True
    with Cons.prems have "d \<in> set (fresh_dependencies layer seen ds)" by simp
    then show ?thesis by (rule Cons.IH)
  next
    case False
    show ?thesis
    proof (cases "d = a")
      case True
      with False show ?thesis by simp
    next
      case neq: False
      with False Cons.prems have "d \<in> set (fresh_dependencies layer (layer a # seen) ds)"
        by simp
      from Cons.IH [OF this] show ?thesis by simp
    qed
  qed
qed

lemma fresh_dependencies_distinct: "distinct (fresh_dependencies layer seen ds)"
proof (induction ds arbitrary: seen)
  case Nil
  show ?case by simp
next
  case (Cons d ds)
  have "d \<notin> set (fresh_dependencies layer (layer d # seen) ds)"
    using fresh_dependencies_not_seen [of d layer "layer d # seen" ds] by auto
  with Cons show ?case by simp
qed

lemma pending_invariant_step:
  assumes inv: "pending_invariant (joinpath dir) order pe known" and ne: "pe \<noteq> []"
    and ex: "explore_depends env dir deps order (butlast pe) = Inr (order', pe')"
  shows "last pe \<notin> known \<and> pending_invariant (joinpath dir) order' pe' (insert (last pe) known)"
proof -
  let ?L = "joinpath dir"
  let ?new = "fresh_dependencies ?L order deps"
  from explore_depends_fresh [OF ex]
  have order': "order' = rev (map ?L ?new) @ order" and pe': "pe' = rev ?new @ butlast pe"
    by simp_all
  from ne have pe: "pe = butlast pe @ [last pe]" by simp
  from inv have dist: "distinct pe" and disj: "set pe \<inter> known = {}"
    and seen: "\<And>x. x \<in> set pe \<union> known \<Longrightarrow> ?L x \<in> set order"
    by (auto simp: pending_invariant_def)
  from ne have last_in: "last pe \<in> set pe" by simp
  with disj have not_known: "last pe \<notin> known" by auto
  have butlast_in: "\<And>x. x \<in> set (butlast pe) \<Longrightarrow> x \<in> set pe"
    by (rule in_set_butlastD)
  from dist pe have last_not_front: "last pe \<notin> set (butlast pe)"
    by (metis distinct_append disjoint_iff list.set_intros(1))
  have new_unseen: "\<And>x. x \<in> set ?new \<Longrightarrow> ?L x \<notin> set order"
    by (rule fresh_dependencies_not_seen)
  have d1: "distinct pe'"
    unfolding pe' using fresh_dependencies_distinct [of ?L order deps] dist
      new_unseen seen butlast_in
    by (auto simp: distinct_butlast)
  have d2: "set pe' \<inter> insert (last pe) known = {}"
    unfolding pe' using new_unseen seen butlast_in last_in last_not_front disj
    by auto
  have d3: "?L ` (set pe' \<union> insert (last pe) known) \<subseteq> set order'"
    unfolding pe' order' using seen butlast_in last_in by auto
  from d1 d2 d3 not_known show ?thesis by (simp add: pending_invariant_def)
qed

lemma explore_depends_error:
  "explore_depends env dir deps order pe = Inl e \<Longrightarrow> \<exists>p. e = FileNotFoundError p"
  by (induction deps arbitrary: order pe)
     (auto simp: update_first_path_def check_path_add_def split: if_splits)

lemma BaseBundleMetaIni_depends_error:
  assumes "\<And>p m. parsed_ini env p \<noteq> Inl (ValueError (DuplicateDependency m))"
  shows "BaseBundleMetaIni_depends env p \<noteq> Inl (ValueError (DuplicateDependency m))"
  using assms [of p m]
  by (auto simp: BaseBundleMetaIni_depends_def IniConfigFile_getitem_def
      split: sum.splits option.splits)

lemma explore_loop_never_duplicate:
  assumes "pending_invariant (joinpath dir) order pe known"
    and "\<And>p m. parsed_ini env p \<noteq> Inl (ValueError (DuplicateDependency m))"
  shows "explore_loop env dir order pe known \<noteq> Inl (ValueError (DuplicateDependency m))"
  using assms
proof (induction env dir order pe known rule: explore_loop.induct)
  case (1 env dir order pe known)
  show ?case
  proof (cases "pe = []")
    case True
    then show ?thesis by (simp add: explore_loop_empty)
  next
    case False
    let ?meta = "joinpath (joinpath dir (last pe)) BASEBUNDLEMETA_INI"
    show ?thesis
    proof (cases "BaseBundleMetaIni_depends env ?meta")
      case (Inl e)
      have "last pe \<notin> known"
        using "1.prems"(1) last_in_set [OF False] by (auto simp: pending_invariant_def)
      with False Inl have "explore_loop env dir order pe known = Inl e"
        by (subst explore_loop.simps) (simp add: Let_def)
      with Inl BaseBundleMetaIni_depends_error [of env ?meta m] "1.prems"(2)
      show ?thesis by auto
    next
      case (Inr deps)
      show ?thesis
      proof (cases "explore_depends env dir deps order (butlast pe)")
        case (Inl e)
        have "last pe \<notin> known"
          using "1.prems"(1) last_in_set [OF False] by (auto simp: pending_invariant_def)
        with False Inr Inl have "explore_loop env dir order pe known = Inl e"
          by (subst explore_loop.simps) (simp add: Let_def)
        with explore_depends_error [OF Inl] show ?thesis by auto
      next
        case ok: (Inr result)
        obtain order' pe' where result: "result = (order', pe')" by (cases result)
        from pending_invariant_step [OF "1.prems"(1) False ok [unfolded result]]
        have fresh: "last pe \<notin> known"
          and inv': "pending_invariant (joinpath dir) order' pe' (insert (last pe) known)"
          by simp_all
        from False fresh Inr ok result
        have "explore_loop env dir order pe known =
            explore_loop env dir order' pe' (insert (last pe) known)"
          by (subst explore_loop.simps) (simp add: Let_def)
        moreover have "explore_loop env dir order' pe' (insert (last pe) known) \<noteq>
            Inl (ValueError (DuplicateDependency m))"
          using "1.IH" [OF False refl refl fresh Inr ok [unfolded result] refl inv' "1.prems"(2)]
          by simp
        ultimately show ?thesis by simp
      qed
    qed
  qed
qed

lemma scan_entries_error:
  "scan_entries env directory names file_dict \<noteq> Inl (ValueError (DuplicateDependency m))"
  by (induction names arbitrary: file_dict)
     (auto simp: Let_def update_last_path_def check_path_add_def
       split: option.splits sum.splits prod.splits if_splits)

lemma scan_directories_error:
  "scan_directories env directories file_dict \<noteq> Inl (ValueError (DuplicateDependency m))"
  by (induction directories arbitrary: file_dict)
     (auto simp: scan_entries_error split: sum.splits)

lemma ConfigBundle_config_data_error:
  "fst (ConfigBundle_config_data env self) \<noteq> Inl (ValueError (DuplicateDependency m))"
  by (auto simp: ConfigBundle_config_data_def CacheConfigMixin_config_data_def
      ConfigABC_config_data_def ConfigBundle_parse_data_def scan_directories_error Let_def
      split: prod.splits sum.splits option.splits)

lemma from_base_name_never_duplicate:
  assumes "\<And>p m. parsed_ini env p \<noteq> Inl (ValueError (DuplicateDependency m))"
  shows "ConfigBundle_from_base_name env name \<noteq> Inl (ValueError (DuplicateDependency m))"
proof
  let ?dir = "joinpath (resources_dir env) (CONFIG_BUNDLES_DIR env)"
  let ?p = "joinpath ?dir name"
  assume dup: "ConfigBundle_from_base_name env name = Inl (ValueError (DuplicateDependency m))"
  have "pending_invariant (joinpath ?dir) [?p] [name] {}"
    by (simp add: pending_invariant_def)
  from explore_loop_never_duplicate [OF this assms]
  have loop: "explore_loop env ?dir [?p] [name] {} \<noteq> Inl (ValueError (DuplicateDependency m))" .
  have scan: "ConfigBundle_config_data env self \<noteq> (Inl (ValueError (DuplicateDependency m)), self')"
    for self self' using ConfigBundle_config_data_error [of env self m] by auto
  from dup loop show False
    using scan
    by (auto simp: ConfigBundle_from_base_name_def Let_def PatchesConfig_set_patches_dir_def
        split: if_splits sum.splits prod.splits option.splits error.splits)
qed

text \<open>
  Claim C2 fails on the code. A bundle that depends on itself, and a diamond in which
  \<open>d\<close> is reached through \<open>b\<close> and through \<open>c\<close>, both resolve without an error: the
  revisit is absorbed by \<open>update_first_path\<close> returning False, and the
  duplicate-dependency \<open>ValueError\<close> is never raised
  (\<open>from_base_name_never_duplicate\<close>).
\<close>

theorem from_base_name_absorbs_revisits:
  "ConfigBundle_from_base_name (example_environment example_self_dependency) ''a'' =
     Inr \<lparr>path_order = [''resources/config_bundles/a''], read_cache = Some []\<rparr> \<and>
   ConfigBundle_from_base_name (example_environment example_diamond) ''a'' =
     Inr \<lparr>path_order =
            [''resources/config_bundles/d'', ''resources/config_bundles/c'',
             ''resources/config_bundles/b'', ''resources/config_bundles/a''],
          read_cache = Some []\<rparr>"
  by (simp add: example_eval example_self_dependency_def example_diamond_def)

end
